theory Spec2Isabelle
  imports Complex_Main
begin

section \<open>Entity model\<close>

text \<open>
  The program is one React component, \<^verbatim>\<open>src/App.tsx\<close>. Its numbers are
  JavaScript numbers; they are idealised here as the reals, so every statement below is
  about exact arithmetic (no rounding, no NaN, no infinity). The two counts are naturals
  (the form hands over whole numbers, at least 6 balls and at least 2 colours).

  The \<^verbatim>\<open>color\<close> of a ball is a palette string, or \<^verbatim>\<open>undefined\<close> when
  the palette is indexed out of range: \<open>None\<close> stands for \<^verbatim>\<open>undefined\<close>.
  The \<^verbatim>\<open>el\<close> field (the DOM handle) is written by the renderer only and takes no
  part in any computation, so the record leaves it out.

  Ball objects are compared by reference (\<^verbatim>\<open>Set<Ball>\<close>); the model identifies a
  ball with its index in \<^verbatim>\<open>ballsRef.current\<close>.
\<close>

type_synonym color = "string option"

record Position =
  pos_x :: real
  pos_y :: real

record Ball =
  ball_x :: real
  ball_y :: real
  ball_vx :: real
  ball_vy :: real
  ball_color :: color

definition FIELD_WIDTH :: real where "FIELD_WIDTH = 600"
definition FIELD_HEIGHT :: real where "FIELD_HEIGHT = 500"
definition BALL_SIZE :: real where "BALL_SIZE = 20"
definition GROUP_RADIUS :: real where "GROUP_RADIUS = 100"
definition PUSH_RADIUS :: real where "PUSH_RADIUS = 150"
definition PUSH_FORCE :: real where "PUSH_FORCE = 5 / 2"
definition MAX_SPEED :: real where "MAX_SPEED = 6"
definition FRICTION :: real where "FRICTION = 97 / 100"

text \<open>\<^verbatim>\<open>Math.hypot(dx, dy)\<close>.\<close>

definition hypot :: "real \<Rightarrow> real \<Rightarrow> real" where
  "hypot dx dy = sqrt (dx * dx + dy * dy)"

section \<open>Spawning: \<^verbatim>\<open>generateBalls\<close> and \<^verbatim>\<open>startGame\<close>\<close>

definition palette :: "string list" where
  "palette = [''red'', ''green'', ''blue'', ''yellow'', ''purple'', ''orange'']"

text \<open>Reading a JavaScript array: an index past the end gives \<^verbatim>\<open>undefined\<close>.\<close>

definition js_index :: "'a list \<Rightarrow> nat \<Rightarrow> 'a option" where
  "js_index xs i = (if i < length xs then Some (xs ! i) else None)"

text \<open>
  \<^verbatim>\<open>colors[i % colorCount]\<close>. With \<^verbatim>\<open>colorCount\<close> zero the remainder is NaN
  and the read gives \<^verbatim>\<open>undefined\<close>.
\<close>

definition pick_color :: "nat \<Rightarrow> nat \<Rightarrow> color" where
  "pick_color colorCount i =
     (if colorCount = 0 then None else js_index palette (i mod colorCount))"

text \<open>
  The error message is a template string. The model keeps it as its pieces, the fixed
  texts and the three interpolated numbers, in order; how a number is spelled is
  JavaScript's number-to-string conversion, which the model does not render.
\<close>

datatype piece = Chars string | Count nat

type_synonym message = "piece list"

definition error_text :: "nat \<Rightarrow> nat \<Rightarrow> message" where
  "error_text ballCount colorCount =
     [Chars ''Error: For '', Count colorCount, Chars '' colors, you need at least '',
      Count (colorCount * 2), Chars '' balls. Currently set: '', Count ballCount, Chars ''.'']"

text \<open>
  \<^verbatim>\<open>generateBalls\<close> returns the batch and sets the error message; the model returns
  both. \<^verbatim>\<open>Math.random()\<close> is the parameter \<open>rnd\<close>: ball \<open>i\<close> takes draw
  \<open>2 * i\<close> for \<^verbatim>\<open>x\<close> and draw \<open>2 * i + 1\<close> for \<^verbatim>\<open>y\<close>. The library
  promises each draw in \<open>[0, 1)\<close>. \<^verbatim>\<open>Array.from\<close> builds the batch for a length below
  \<open>2\<^sup>3\<^sup>2\<close>; from there on the array constructor throws a \<^verbatim>\<open>RangeError\<close>, which
  the model leaves out: what is stated of a generated batch of a given length carries that
  bound.
\<close>

definition unit_draws :: "(nat \<Rightarrow> real) \<Rightarrow> bool" where
  "unit_draws rnd = (\<forall>k. 0 \<le> rnd k \<and> rnd k < 1)"

definition spawn_ball :: "(nat \<Rightarrow> real) \<Rightarrow> nat \<Rightarrow> nat \<Rightarrow> Ball" where
  "spawn_ball rnd colorCount i =
     \<lparr> ball_x = rnd (2 * i) * (FIELD_WIDTH - BALL_SIZE),
       ball_y = rnd (2 * i + 1) * (FIELD_HEIGHT - BALL_SIZE),
       ball_vx = 0,
       ball_vy = 0,
       ball_color = pick_color colorCount i \<rparr>"

definition generateBalls :: "(nat \<Rightarrow> real) \<Rightarrow> nat \<Rightarrow> nat \<Rightarrow> message option \<times> Ball list" where
  "generateBalls rnd ballCount colorCount =
     (if ballCount < colorCount * 2
      then (Some (error_text ballCount colorCount), [])
      else (None, map (spawn_ball rnd colorCount) [0..<ballCount]))"

record Session =
  cfg_ballCount :: nat
  cfg_colorCount :: nat
  isWin :: bool
  cursorPos :: "Position option"
  time :: real
  errorMessage :: "message option"
  ballsRef :: "Ball list"
  cursorRef :: "Position option"
  timerActive :: bool

text \<open>
  \<^verbatim>\<open>startGame\<close>: an empty batch returns early, after the error message was set and
  before \<^verbatim>\<open>ballsRef.current\<close> is replaced.
\<close>

definition startGame :: "(nat \<Rightarrow> real) \<Rightarrow> Session \<Rightarrow> Session" where
  "startGame rnd s =
     (case generateBalls rnd (cfg_ballCount s) (cfg_colorCount s) of (msg, balls) \<Rightarrow>
        if balls = [] then s\<lparr>errorMessage := msg\<rparr>
        else s\<lparr>errorMessage := msg, ballsRef := balls, isWin := False, time := 0,
               cursorPos := None, cursorRef := None, timerActive := True\<rparr>)"

section \<open>Connectivity: the traversal, \<^verbatim>\<open>checkWin\<close> and \<^verbatim>\<open>getHighlight\<close>\<close>

definition center_dist :: "Ball \<Rightarrow> Ball \<Rightarrow> real" where
  "center_dist current other =
     hypot (ball_x current + BALL_SIZE / 2 - (ball_x other + BALL_SIZE / 2))
           (ball_y current + BALL_SIZE / 2 - (ball_y other + BALL_SIZE / 2))"

definition near :: "Ball list \<Rightarrow> nat \<Rightarrow> nat \<Rightarrow> bool" where
  "near balls i j = (center_dist (balls ! i) (balls ! j) \<le> GROUP_RADIUS)"

text \<open>
  The \<^verbatim>\<open>while (queue.length)\<close> loop shared by both predicates. The queue is used as a
  stack: \<^verbatim>\<open>pop\<close> takes the last element and \<^verbatim>\<open>push\<close> appends. A ball can sit in
  the queue several times; the visited set absorbs the repeats.
\<close>

function traverse :: "Ball list \<Rightarrow> nat list \<Rightarrow> nat set \<Rightarrow> nat list \<Rightarrow> nat set" where
  "traverse balls colorBalls visited queue =
     (if queue = [] then visited
      else
        let current = last queue;
            visited1 = insert current visited;
            pushed = filter (\<lambda>other. other \<notin> visited1 \<and> near balls current other) colorBalls
        in traverse balls colorBalls visited1 (butlast queue @ pushed))"
  by pat_completeness auto
termination
proof (relation "(\<lambda>(balls, cb, v, q). card ((set cb \<union> set q) - v)) <*mlex*>
                 (\<lambda>(balls, cb, v, q). if q \<noteq> [] \<and> last q \<in> v then 1 else 0) <*mlex*>
                 measure (\<lambda>(balls, cb, v, q). length q)", goal_cases)
  case 1
  show ?case by (intro wf_mlex) simp
next
  case (2 balls cb v q cur v1 pushed)
  have sub: "set (butlast q) \<subseteq> set q" by (metis in_set_butlastD subsetI)
  have psub: "set pushed \<subseteq> set cb - v1" using 2 by auto
  have curq: "cur \<in> set q" using 2 by simp
  let ?U = "(set cb \<union> set q) - v"
  let ?U' = "(set cb \<union> set (butlast q @ pushed)) - v1"
  have fin: "finite ?U" by simp
  have U'sub: "?U' \<subseteq> ?U - {cur}" using sub psub 2(3) by auto
  show ?case
  proof (cases "cur \<in> v")
    case False
    then have "cur \<in> ?U" using curq by simp
    then have "?U' \<subset> ?U" using U'sub by auto
    then have "card ?U' < card ?U" using fin by (rule psubset_card_mono[rotated])
    then show ?thesis by (intro mlex_less) simp
  next
    case True
    then have v1: "v1 = v" using 2 by auto
    have le: "card ?U' \<le> card ?U" using U'sub fin by (meson Diff_subset card_mono subset_trans)
    show ?thesis
    proof (cases "pushed = []")
      case True
      have "length (butlast q) < length q" using 2 by simp
      then show ?thesis using le True \<open>cur \<in> v\<close> 2(1,2) v1
        by (intro mlex_leq) (auto simp: mlex_iff)
    next
      case False
      then have "last (butlast q @ pushed) \<in> set pushed" by simp
      then have "last (butlast q @ pushed) \<notin> v1" using psub by auto
      then show ?thesis using le False \<open>cur \<in> v\<close> 2(1,2) v1
        by (intro mlex_leq mlex_less) auto
    qed
  qed
qed

declare traverse.simps [simp del]

text \<open>
  \<^verbatim>\<open>[colorBalls[0]]\<close>, the initial queue. Both callers pass a list with a first
  element (a group is created together with its first member; \<^verbatim>\<open>getHighlight\<close>
  returns before the traversal when fewer than two balls share the colour).
\<close>

definition seed_queue :: "nat list \<Rightarrow> nat list" where
  "seed_queue colorBalls = (case colorBalls of [] \<Rightarrow> [] | first # _ \<Rightarrow> [first])"

definition cluster :: "Ball list \<Rightarrow> nat list \<Rightarrow> nat set" where
  "cluster balls colorBalls = traverse balls colorBalls {} (seed_queue colorBalls)"

text \<open>
  \<^verbatim>\<open>groups\<close>: an object from colour to the balls of that colour, filled in batch
  order; \<^verbatim>\<open>for (const color in groups)\<close> walks it in insertion order. It is an
  association list here. On the colours \<^verbatim>\<open>generateBalls\<close> assigns (a palette
  string or \<^verbatim>\<open>undefined\<close>) the object's keys and the colours correspond one to
  one; \<open>palette_batch\<close> names those batches.
\<close>

fun push_group :: "color \<Rightarrow> nat \<Rightarrow> (color \<times> nat list) list \<Rightarrow> (color \<times> nat list) list" where
  "push_group c i [] = [(c, [i])]"
| "push_group c i ((k, g) # groups) =
     (if k = c then (k, g @ [i]) # groups else (k, g) # push_group c i groups)"

definition group_balls :: "Ball list \<Rightarrow> (color \<times> nat list) list" where
  "group_balls balls =
     foldl (\<lambda>groups i. push_group (ball_color (balls ! i)) i groups) [] [0..<length balls]"

definition palette_batch :: "Ball list \<Rightarrow> bool" where
  "palette_batch balls =
     (\<forall>b \<in> set balls. ball_color b = None \<or> ball_color b \<in> Some ` set palette)"

record Centre =
  centre_x :: real
  centre_y :: real
  centre_color :: color

definition positions_of :: "Ball list \<Rightarrow> Centre list" where
  "positions_of balls =
     map (\<lambda>b. \<lparr> centre_x = ball_x b + BALL_SIZE / 2,
                centre_y = ball_y b + BALL_SIZE / 2,
                centre_color = ball_color b \<rparr>) balls"

definition clash :: "Centre \<Rightarrow> Centre \<Rightarrow> bool" where
  "clash p q =
     (centre_color p \<noteq> centre_color q \<and>
      hypot (centre_x p - centre_x q) (centre_y p - centre_y q) \<le> GROUP_RADIUS)"

definition cross_clash :: "Centre list \<Rightarrow> bool" where
  "cross_clash positions =
     list_ex (\<lambda>i. list_ex (\<lambda>j. clash (positions ! i) (positions ! j))
                           [Suc i..<length positions])
             [0..<length positions]"

definition checkWin :: "Ball list \<Rightarrow> bool" where
  "checkWin balls =
     (if balls = [] then False
      else if list_ex (\<lambda>(color, colorBalls).
                card (cluster balls colorBalls) \<noteq> length colorBalls) (group_balls balls)
      then False
      else \<not> cross_clash (positions_of balls))"

text \<open>
  \<^verbatim>\<open>getHighlight(ball)\<close>; the renderer calls it with the balls of the batch, so the
  argument is the index of one.
\<close>

definition getHighlight :: "Ball list \<Rightarrow> nat \<Rightarrow> bool" where
  "getHighlight balls ball =
     (if balls = [] then False
      else
        let sameColorBalls =
              filter (\<lambda>b. ball_color (balls ! b) = ball_color (balls ! ball)) [0..<length balls]
        in if length sameColorBalls < 2 then False
           else
             let visited = cluster balls sameColorBalls
             in ball \<in> visited \<and> card visited > 1)"

section \<open>The integrator: the loop of \<^verbatim>\<open>animate\<close>\<close>

text \<open>
  The stages in exact arithmetic. What is proved of them below concerns positions, a batch at
  rest and the force formula; the speed after the rescale, which the rounding decides, is
  treated on the rounded transcription further down.
\<close>

definition cursor_force :: "Position option \<Rightarrow> bool \<Rightarrow> Ball \<Rightarrow> Ball" where
  "cursor_force cursor won b =
     (case cursor of
        None \<Rightarrow> b
      | Some c \<Rightarrow>
          if won then b
          else
            let dx = ball_x b + BALL_SIZE / 2 - pos_x c;
                dy = ball_y b + BALL_SIZE / 2 - pos_y c;
                dist = hypot dx dy
            in if dist < PUSH_RADIUS \<and> dist > 0
               then
                 let force = (PUSH_RADIUS - dist) / PUSH_RADIUS
                 in b\<lparr> ball_vx := ball_vx b + (dx / dist) * PUSH_FORCE * force,
                       ball_vy := ball_vy b + (dy / dist) * PUSH_FORCE * force \<rparr>
               else b)"

text \<open>The body of the inner loop, for the pair \<open>b = balls[i]\<close>, \<open>o = balls[j]\<close>.\<close>

definition collide :: "nat \<Rightarrow> nat \<Rightarrow> Ball list \<Rightarrow> Ball list" where
  "collide i j balls =
     (let b = balls ! i;
          ob = balls ! j;
          dx = ball_x b - ball_x ob;
          dy = ball_y b - ball_y ob;
          dist = hypot dx dy
      in if dist < BALL_SIZE \<and> dist > 0
         then
           let overlap = BALL_SIZE - dist;
               nx = dx / dist;
               ny = dy / dist;
               force = 3 / 10
           in balls[i := b\<lparr> ball_x := ball_x b + (nx * overlap) / 2,
                             ball_y := ball_y b + (ny * overlap) / 2,
                             ball_vx := ball_vx b + nx * force,
                             ball_vy := ball_vy b + ny * force \<rparr>,
                    j := ob\<lparr> ball_x := ball_x ob - (nx * overlap) / 2,
                              ball_y := ball_y ob - (ny * overlap) / 2,
                              ball_vx := ball_vx ob - nx * force,
                              ball_vy := ball_vy ob - ny * force \<rparr>]
         else balls)"

definition integrate :: "Ball \<Rightarrow> Ball" where
  "integrate b =
     b\<lparr> ball_x := ball_x b + ball_vx b,
        ball_y := ball_y b + ball_vy b,
        ball_vx := ball_vx b * FRICTION,
        ball_vy := ball_vy b * FRICTION \<rparr>"

definition clamp_speed :: "Ball \<Rightarrow> Ball" where
  "clamp_speed b =
     (let speed = hypot (ball_vx b) (ball_vy b)
      in if speed > MAX_SPEED
         then b\<lparr> ball_vx := (ball_vx b / speed) * MAX_SPEED,
                 ball_vy := (ball_vy b / speed) * MAX_SPEED \<rparr>
         else b)"

definition bounce :: "Ball \<Rightarrow> Ball" where
  "bounce b =
     (let b1 = (if ball_x b < 0
                then b\<lparr> ball_x := 0, ball_vx := ball_vx b * (- (3 / 5)) \<rparr> else b);
          b2 = (if ball_x b1 > FIELD_WIDTH - BALL_SIZE
                then b1\<lparr> ball_x := FIELD_WIDTH - BALL_SIZE, ball_vx := ball_vx b1 * (- (3 / 5)) \<rparr>
                else b1);
          b3 = (if ball_y b2 < 0
                then b2\<lparr> ball_y := 0, ball_vy := ball_vy b2 * (- (3 / 5)) \<rparr> else b2)
      in if ball_y b3 > FIELD_HEIGHT - BALL_SIZE
         then b3\<lparr> ball_y := FIELD_HEIGHT - BALL_SIZE, ball_vy := ball_vy b3 * (- (3 / 5)) \<rparr>
         else b3)"

text \<open>One turn of the outer loop, for \<open>b = balls[i]\<close>.\<close>

definition step_ball :: "Position option \<Rightarrow> bool \<Rightarrow> nat \<Rightarrow> Ball list \<Rightarrow> Ball list" where
  "step_ball cursor won i balls =
     (let balls1 = balls[i := cursor_force cursor won (balls ! i)];
          balls2 = fold (collide i) [Suc i..<length balls1] balls1
      in balls2[i := bounce (clamp_speed (integrate (balls2 ! i)))])"

definition animate_balls :: "Position option \<Rightarrow> bool \<Rightarrow> Ball list \<Rightarrow> Ball list" where
  "animate_balls cursor won balls = fold (step_ball cursor won) [0..<length balls] balls"

text \<open>
  One frame: \<^verbatim>\<open>animate\<close>. With an empty batch it returns before anything else (and
  schedules no further frame).
\<close>

definition animate :: "Session \<Rightarrow> Session" where
  "animate s =
     (if ballsRef s = [] then s
      else
        let s1 = s\<lparr> ballsRef := animate_balls (cursorRef s) (isWin s) (ballsRef s) \<rparr>
        in if \<not> isWin s1 \<and> checkWin (ballsRef s1)
           then s1\<lparr> isWin := True, cursorPos := None, timerActive := False \<rparr>
           else s1)"

section \<open>Predicates of the specification\<close>

text \<open>The arena bounds on the top-left corner of a ball, and the speed bound.\<close>

definition in_arena :: "Ball \<Rightarrow> bool" where
  "in_arena b =
     (0 \<le> ball_x b \<and> ball_x b \<le> FIELD_WIDTH - BALL_SIZE \<and>
      0 \<le> ball_y b \<and> ball_y b \<le> FIELD_HEIGHT - BALL_SIZE)"

definition speed_ok :: "Ball \<Rightarrow> bool" where
  "speed_ok b = (hypot (ball_vx b) (ball_vy b) \<le> MAX_SPEED)"


text \<open>Any number of frames, each with its own cursor sample and won flag.\<close>

definition run_frames :: "(Position option \<times> bool) list \<Rightarrow> Ball list \<Rightarrow> Ball list" where
  "run_frames frames balls = fold (\<lambda>(cursor, won). animate_balls cursor won) frames balls"

text \<open>The overlap of two balls: the diameter minus the distance of their centres.\<close>

definition overlap :: "Ball \<Rightarrow> Ball \<Rightarrow> real" where
  "overlap a b = BALL_SIZE - center_dist a b"

text \<open>
  A batch at rest: every ball inside the arena with zero velocity, and no two balls that the
  collision pass would push apart.
\<close>

definition strictly_overlapping :: "Ball \<Rightarrow> Ball \<Rightarrow> bool" where
  "strictly_overlapping a b =
     (0 < hypot (ball_x a - ball_x b) (ball_y a - ball_y b) \<and>
      hypot (ball_x a - ball_x b) (ball_y a - ball_y b) < BALL_SIZE)"

definition at_rest :: "Ball list \<Rightarrow> bool" where
  "at_rest balls =
     ((\<forall>b \<in> set balls. in_arena b \<and> ball_vx b = 0 \<and> ball_vy b = 0) \<and>
      (\<forall>i < length balls. \<forall>j < length balls.
         i < j \<longrightarrow> \<not> strictly_overlapping (balls ! i) (balls ! j)))"

text \<open>A session configured with too few balls for its colours.\<close>

definition short_config :: Session where
  "short_config =
     \<lparr> cfg_ballCount = 3, cfg_colorCount = 2, isWin = False, cursorPos = None, time = 0,
       errorMessage = None,
       ballsRef = [\<lparr>ball_x = 100, ball_y = 100, ball_vx = 0, ball_vy = 0, ball_color = Some ''red''\<rparr>],
       cursorRef = None, timerActive = True \<rparr>"

text \<open>Sessions configured with seven balls in three colours, and with fourteen in seven.\<close>

definition seven_in_three :: Session where
  "seven_in_three = short_config\<lparr>cfg_ballCount := 7, cfg_colorCount := 3\<rparr>"

definition fourteen_in_seven :: Session where
  "fourteen_in_seven = short_config\<lparr>cfg_ballCount := 14, cfg_colorCount := 7\<rparr>"

text \<open>Two sessions that are won: one with a ball still moving, one at rest.\<close>

definition won_example :: Session where
  "won_example =
     \<lparr> cfg_ballCount = 1, cfg_colorCount = 1, isWin = True, cursorPos = None, time = 0,
       errorMessage = None,
       ballsRef = [\<lparr>ball_x = 100, ball_y = 100, ball_vx = 1, ball_vy = 0, ball_color = Some ''red''\<rparr>],
       cursorRef = Some \<lparr>pos_x = 50, pos_y = 110\<rparr>, timerActive = False \<rparr>"

definition rest_example :: Session where
  "rest_example =
     \<lparr> cfg_ballCount = 2, cfg_colorCount = 1, isWin = True, cursorPos = None, time = 0,
       errorMessage = None,
       ballsRef = [\<lparr>ball_x = 100, ball_y = 100, ball_vx = 0, ball_vy = 0, ball_color = Some ''red''\<rparr>,
                   \<lparr>ball_x = 130, ball_y = 100, ball_vx = 0, ball_vy = 0, ball_color = Some ''red''\<rparr>],
       cursorRef = Some \<lparr>pos_x = 50, pos_y = 110\<rparr>, timerActive = False \<rparr>"

text \<open>
  The specification's view of connectivity. The members of a colour, in batch order; the
  edges between members of one group that lie within \<open>GROUP_RADIUS\<close> of each other; and
  what can be reached from a seed along such edges.
\<close>

definition members :: "Ball list \<Rightarrow> color \<Rightarrow> nat list" where
  "members balls c = filter (\<lambda>i. ball_color (balls ! i) = c) [0..<length balls]"

definition adjacent :: "Ball list \<Rightarrow> nat list \<Rightarrow> (nat \<times> nat) set" where
  "adjacent balls grp =
     {(i, j). i \<in> set grp \<and> j \<in> set grp \<and>
              center_dist (balls ! i) (balls ! j) \<le> GROUP_RADIUS}"

definition reachable_from :: "Ball list \<Rightarrow> nat list \<Rightarrow> nat \<Rightarrow> nat set" where
  "reachable_from balls grp seed = {j. (seed, j) \<in> (adjacent balls grp)\<^sup>*}"

text \<open>The cluster of the first member of a colour.\<close>

definition seed_cluster :: "Ball list \<Rightarrow> color \<Rightarrow> nat set" where
  "seed_cluster balls c = reachable_from balls (members balls c) (hd (members balls c))"

definition connected_color :: "Ball list \<Rightarrow> color \<Rightarrow> bool" where
  "connected_color balls c = (set (members balls c) \<subseteq> seed_cluster balls c)"

text \<open>Some pair of balls of different colours lies within \<open>GROUP_RADIUS\<close>.\<close>

definition cross_adjacent :: "Ball list \<Rightarrow> bool" where
  "cross_adjacent balls =
     (\<exists>i < length balls. \<exists>j < length balls.
        ball_color (balls ! i) \<noteq> ball_color (balls ! j) \<and>
        center_dist (balls ! i) (balls ! j) \<le> GROUP_RADIUS)"

text \<open>
  The win condition in the specification's words: every colour is one cluster, and no two
  balls of different colours are adjacent.
\<close>

definition spec_win :: "Ball list \<Rightarrow> bool" where
  "spec_win balls =
     ((\<forall>c \<in> ball_color ` set balls. connected_color balls c) \<and> \<not> cross_adjacent balls)"

text \<open>Example batches: three reds of which the first is far from the other two; two reds
  and two greens, each colour gathered and the colours far apart.\<close>

definition split_group :: "Ball list" where
  "split_group =
     [\<lparr>ball_x = 0, ball_y = 0, ball_vx = 0, ball_vy = 0, ball_color = Some ''red''\<rparr>,
      \<lparr>ball_x = 300, ball_y = 0, ball_vx = 0, ball_vy = 0, ball_color = Some ''red''\<rparr>,
      \<lparr>ball_x = 310, ball_y = 0, ball_vx = 0, ball_vy = 0, ball_color = Some ''red''\<rparr>]"

definition two_clusters :: "Ball list" where
  "two_clusters =
     [\<lparr>ball_x = 0, ball_y = 0, ball_vx = 0, ball_vy = 0, ball_color = Some ''red''\<rparr>,
      \<lparr>ball_x = 300, ball_y = 0, ball_vx = 0, ball_vy = 0, ball_color = Some ''green''\<rparr>,
      \<lparr>ball_x = 50, ball_y = 0, ball_vx = 0, ball_vy = 0, ball_color = Some ''red''\<rparr>,
      \<lparr>ball_x = 350, ball_y = 0, ball_vx = 0, ball_vy = 0, ball_color = Some ''green''\<rparr>]"

section \<open>The integrator in double precision\<close>

text \<open>
  The definitions above compute in exact arithmetic. Where a statement is decided by the
  rounding of the program's numbers, the loop of \<^verbatim>\<open>animate\<close> is transcribed once more
  with every arithmetic operation rounded to a double.

  \<open>to_double\<close> is the rounding of IEEE 754 binary64: to the nearest number with a 53-bit
  significand, a tie going to the even one. The exponent range is left unbounded: overflow
  to \<^verbatim>\<open>Infinity\<close> and the subnormal numbers are outside this model.
\<close>

definition rne :: "real \<Rightarrow> int" where
  "rne y =
     (let f = \<lfloor>y\<rfloor>
      in if y - of_int f < 1 / 2 then f
         else if 1 / 2 < y - of_int f then f + 1
         else if even f then f else f + 1)"

definition to_double :: "real \<Rightarrow> real" where
  "to_double x =
     (if x = 0 then 0
      else
        let e = \<lfloor>log 2 \<bar>x\<bar>\<rfloor>
        in sgn x * of_int (rne (\<bar>x\<bar> * 2 powr (52 - of_int e))) * 2 powr (of_int e - 52))"

text \<open>The four operations of the program, each rounding its exact result.\<close>

definition add64 :: "real \<Rightarrow> real \<Rightarrow> real" where "add64 a b = to_double (a + b)"

definition sub64 :: "real \<Rightarrow> real \<Rightarrow> real" where "sub64 a b = to_double (a - b)"

definition mul64 :: "real \<Rightarrow> real \<Rightarrow> real" where "mul64 a b = to_double (a * b)"

definition div64 :: "real \<Rightarrow> real \<Rightarrow> real" where "div64 a b = to_double (a / b)"

text \<open>
  The literals \<^verbatim>\<open>0.97\<close>, \<^verbatim>\<open>0.3\<close> and \<^verbatim>\<open>-0.6\<close> are not doubles: each stands for
  the nearest double (the last one negated). The other constants of the program are doubles.
\<close>

definition FRICTION64 :: real where "FRICTION64 = to_double (97 / 100)"

definition IMPULSE64 :: real where "IMPULSE64 = to_double (3 / 10)"

definition REBOUND64 :: real where "REBOUND64 = - to_double (3 / 5)"

text \<open>
  ECMAScript leaves \<^verbatim>\<open>Math.hypot\<close> to the implementation, so it is the parameter \<open>hyp\<close>
  of the rounded loop. \<open>hypot_accuracy\<close> is the accuracy assumed of it, a relative error of
  \<open>2\<^sup>-\<^sup>5\<^sup>0\<close>; \<open>hypot64\<close> is the correctly rounded one.
\<close>

definition hypot_accuracy :: "(real \<Rightarrow> real \<Rightarrow> real) \<Rightarrow> bool" where
  "hypot_accuracy hyp = (\<forall>a b. \<bar>hyp a b - hypot a b\<bar> \<le> hypot a b / 2 ^ 50)"

definition hypot64 :: "real \<Rightarrow> real \<Rightarrow> real" where
  "hypot64 a b = to_double (hypot a b)"

text \<open>The stages of the loop, as above, with the rounded operations.\<close>

definition cursor_force64 ::
  "(real \<Rightarrow> real \<Rightarrow> real) \<Rightarrow> Position option \<Rightarrow> bool \<Rightarrow> Ball \<Rightarrow> Ball" where
  "cursor_force64 hyp cursor won b =
     (case cursor of
        None \<Rightarrow> b
      | Some c \<Rightarrow>
          if won then b
          else
            let dx = sub64 (add64 (ball_x b) (div64 BALL_SIZE 2)) (pos_x c);
                dy = sub64 (add64 (ball_y b) (div64 BALL_SIZE 2)) (pos_y c);
                dist = hyp dx dy
            in if dist < PUSH_RADIUS \<and> dist > 0
               then
                 let force = div64 (sub64 PUSH_RADIUS dist) PUSH_RADIUS
                 in b\<lparr> ball_vx := add64 (ball_vx b) (mul64 (mul64 (div64 dx dist) PUSH_FORCE) force),
                       ball_vy := add64 (ball_vy b) (mul64 (mul64 (div64 dy dist) PUSH_FORCE) force) \<rparr>
               else b)"

definition collide64 :: "(real \<Rightarrow> real \<Rightarrow> real) \<Rightarrow> nat \<Rightarrow> nat \<Rightarrow> Ball list \<Rightarrow> Ball list" where
  "collide64 hyp i j balls =
     (let b = balls ! i;
          ob = balls ! j;
          dx = sub64 (ball_x b) (ball_x ob);
          dy = sub64 (ball_y b) (ball_y ob);
          dist = hyp dx dy
      in if dist < BALL_SIZE \<and> dist > 0
         then
           let overlap = sub64 BALL_SIZE dist;
               nx = div64 dx dist;
               ny = div64 dy dist;
               force = IMPULSE64
           in balls[i := b\<lparr> ball_x := add64 (ball_x b) (div64 (mul64 nx overlap) 2),
                             ball_y := add64 (ball_y b) (div64 (mul64 ny overlap) 2),
                             ball_vx := add64 (ball_vx b) (mul64 nx force),
                             ball_vy := add64 (ball_vy b) (mul64 ny force) \<rparr>,
                    j := ob\<lparr> ball_x := sub64 (ball_x ob) (div64 (mul64 nx overlap) 2),
                              ball_y := sub64 (ball_y ob) (div64 (mul64 ny overlap) 2),
                              ball_vx := sub64 (ball_vx ob) (mul64 nx force),
                              ball_vy := sub64 (ball_vy ob) (mul64 ny force) \<rparr>]
         else balls)"

definition integrate64 :: "Ball \<Rightarrow> Ball" where
  "integrate64 b =
     b\<lparr> ball_x := add64 (ball_x b) (ball_vx b),
        ball_y := add64 (ball_y b) (ball_vy b),
        ball_vx := mul64 (ball_vx b) FRICTION64,
        ball_vy := mul64 (ball_vy b) FRICTION64 \<rparr>"

definition clamp_speed64 :: "(real \<Rightarrow> real \<Rightarrow> real) \<Rightarrow> Ball \<Rightarrow> Ball" where
  "clamp_speed64 hyp b =
     (let speed = hyp (ball_vx b) (ball_vy b)
      in if speed > MAX_SPEED
         then b\<lparr> ball_vx := mul64 (div64 (ball_vx b) speed) MAX_SPEED,
                 ball_vy := mul64 (div64 (ball_vy b) speed) MAX_SPEED \<rparr>
         else b)"

definition bounce64 :: "Ball \<Rightarrow> Ball" where
  "bounce64 b =
     (let b1 = (if ball_x b < 0
                then b\<lparr> ball_x := 0, ball_vx := mul64 (ball_vx b) REBOUND64 \<rparr> else b);
          b2 = (if ball_x b1 > sub64 FIELD_WIDTH BALL_SIZE
                then b1\<lparr> ball_x := sub64 FIELD_WIDTH BALL_SIZE,
                         ball_vx := mul64 (ball_vx b1) REBOUND64 \<rparr>
                else b1);
          b3 = (if ball_y b2 < 0
                then b2\<lparr> ball_y := 0, ball_vy := mul64 (ball_vy b2) REBOUND64 \<rparr> else b2)
      in if ball_y b3 > sub64 FIELD_HEIGHT BALL_SIZE
         then b3\<lparr> ball_y := sub64 FIELD_HEIGHT BALL_SIZE,
                   ball_vy := mul64 (ball_vy b3) REBOUND64 \<rparr>
         else b3)"

definition step_ball64 ::
  "(real \<Rightarrow> real \<Rightarrow> real) \<Rightarrow> Position option \<Rightarrow> bool \<Rightarrow> nat \<Rightarrow> Ball list \<Rightarrow> Ball list" where
  "step_ball64 hyp cursor won i balls =
     (let balls1 = balls[i := cursor_force64 hyp cursor won (balls ! i)];
          balls2 = fold (collide64 hyp i) [Suc i..<length balls1] balls1
      in balls2[i := bounce64 (clamp_speed64 hyp (integrate64 (balls2 ! i)))])"

definition animate_balls64 ::
  "(real \<Rightarrow> real \<Rightarrow> real) \<Rightarrow> Position option \<Rightarrow> bool \<Rightarrow> Ball list \<Rightarrow> Ball list" where
  "animate_balls64 hyp cursor won balls =
     fold (step_ball64 hyp cursor won) [0..<length balls] balls"

text \<open>
  A ball with velocity \<open>(6, 4)\<close>, what the integration makes of it, and what the clamp
  then makes of that: the doubles \<^verbatim>\<open>5.82\<close>, \<^verbatim>\<open>3.88\<close>, \<^verbatim>\<open>4.9923017660270625\<close> and
  \<^verbatim>\<open>3.328201177351375\<close>, written as fractions.
\<close>

definition fast_ball :: Ball where
  "fast_ball = \<lparr>ball_x = 100, ball_y = 100, ball_vx = 6, ball_vy = 4, ball_color = Some ''red''\<rparr>"

definition fast_ball_moved :: Ball where
  "fast_ball_moved =
     \<lparr>ball_x = 106, ball_y = 104, ball_vx = 6552737457824072 / 2 ^ 50,
      ball_vy = 8736983277098762 / 2 ^ 51, ball_color = Some ''red''\<rparr>"

definition fast_ball_clamped :: Ball where
  "fast_ball_clamped =
     \<lparr>ball_x = 106, ball_y = 104, ball_vx = 5620832093300137 / 2 ^ 50,
      ball_vy = 7494442791066849 / 2 ^ 51, ball_color = Some ''red''\<rparr>"

section \<open>Facts about \<^verbatim>\<open>Math.hypot\<close>\<close>

lemmas game_consts =
  FIELD_WIDTH_def FIELD_HEIGHT_def BALL_SIZE_def GROUP_RADIUS_def
  PUSH_RADIUS_def PUSH_FORCE_def MAX_SPEED_def FRICTION_def

lemma hypot_nonneg: "0 \<le> hypot a b"
  by (simp add: hypot_def)

lemma hypot_le_iff: "0 \<le> r \<Longrightarrow> hypot a b \<le> r \<longleftrightarrow> a * a + b * b \<le> r * r"
proof -
  assume r: "0 \<le> r"
  have "hypot a b \<le> r \<longleftrightarrow> sqrt (a * a + b * b) \<le> sqrt (r * r)"
    using r by (simp add: hypot_def)
  then show ?thesis by (simp only: real_sqrt_le_iff)
qed

lemma hypot_less_iff: "0 \<le> r \<Longrightarrow> hypot a b < r \<longleftrightarrow> a * a + b * b < r * r"
proof -
  assume r: "0 \<le> r"
  have "hypot a b < r \<longleftrightarrow> sqrt (a * a + b * b) < sqrt (r * r)"
    using r by (simp add: hypot_def)
  then show ?thesis by (simp only: real_sqrt_less_iff)
qed

lemma hypot_pos_iff: "0 < hypot a b \<longleftrightarrow> a \<noteq> 0 \<or> b \<noteq> 0"
  using hypot_less_iff [of 0 a b] hypot_nonneg [of a b]
  by (auto simp: hypot_def add_nonneg_eq_0_iff sum_power2_gt_zero_iff power2_eq_square[symmetric])

lemma hypot_zero_iff: "hypot a b = 0 \<longleftrightarrow> a = 0 \<and> b = 0"
  using hypot_pos_iff [of a b] hypot_nonneg [of a b] by auto

lemma hypot_axis1: "hypot a 0 = \<bar>a\<bar>"
  by (simp add: hypot_def)


section \<open>Spawning\<close>

text \<open>
  Claim C10. Every ball of a freshly generated batch lies inside the arena bounds and has
  zero velocity, hence also satisfies the speed bound, whatever the draws of
  \<^verbatim>\<open>Math.random()\<close> in \<open>[0, 1)\<close> were.
\<close>

theorem spawn_inside:
  assumes "unit_draws rnd"
  shows "\<forall>b \<in> set (snd (generateBalls rnd nballs ncolors)).
           in_arena b \<and> ball_vx b = 0 \<and> ball_vy b = 0 \<and> speed_ok b"
proof -
  have r: "0 \<le> rnd k" "rnd k < 1" for k
    using assms by (simp_all add: unit_draws_def)
  have "in_arena (spawn_ball rnd ncolors i)" for i
    using r [of "2 * i"] r [of "2 * i + 1"]
    by (simp add: in_arena_def spawn_ball_def game_consts)
  moreover have "speed_ok (spawn_ball rnd ncolors i)" for i
    by (simp add: speed_ok_def spawn_ball_def hypot_def game_consts)
  moreover have "ball_vx (spawn_ball rnd ncolors i) = 0 \<and> ball_vy (spawn_ball rnd ncolors i) = 0" for i
    by (simp add: spawn_ball_def)
  ultimately show ?thesis
    by (auto simp: generateBalls_def)
qed

theorem spawn_inside_witness:
  "unit_draws (\<lambda>k. 1 / 2) \<and>
   length (snd (generateBalls (\<lambda>k. 1 / 2) 4 2)) = 4 \<and>
   in_arena (snd (generateBalls (\<lambda>k. 1 / 2) 4 2) ! 3) \<and>
   speed_ok (snd (generateBalls (\<lambda>k. 1 / 2) 4 2) ! 3)"
proof -
  have draws: "unit_draws (\<lambda>k. 1 / 2)"
    by (simp add: unit_draws_def)
  have len: "length (snd (generateBalls (\<lambda>k. 1 / 2) 4 2)) = 4"
    by (simp add: generateBalls_def)
  then have "snd (generateBalls (\<lambda>k. 1 / 2) 4 2) ! 3 \<in> set (snd (generateBalls (\<lambda>k. 1 / 2) 4 2))"
    by (intro nth_mem) simp
  with spawn_inside [OF draws, of 4 2] draws len show ?thesis
    by blast
qed

lemma spawn_ball_fields:
  "ball_vx (spawn_ball rnd ncolors i) = 0" "ball_vy (spawn_ball rnd ncolors i) = 0"
  "ball_color (spawn_ball rnd ncolors i) = pick_color ncolors i"
  by (simp_all add: spawn_ball_def)

lemma startGame_fails:
  "cfg_ballCount s < cfg_colorCount s * 2 \<Longrightarrow>
   startGame rnd s = s\<lparr>errorMessage := Some (error_text (cfg_ballCount s) (cfg_colorCount s))\<rparr>"
  by (simp add: startGame_def generateBalls_def)

lemma startGame_spawns:
  assumes "cfg_colorCount s * 2 \<le> cfg_ballCount s" "0 < cfg_colorCount s"
  shows "ballsRef (startGame rnd s) = map (spawn_ball rnd (cfg_colorCount s)) [0..<cfg_ballCount s]"
    and "errorMessage (startGame rnd s) = None"
    and "isWin (startGame rnd s) = False"
proof -
  have "0 < cfg_ballCount s" using assms by linarith
  then have "map (spawn_ball rnd (cfg_colorCount s)) [0..<cfg_ballCount s] \<noteq> []" by simp
  then show "ballsRef (startGame rnd s) = map (spawn_ball rnd (cfg_colorCount s)) [0..<cfg_ballCount s]"
    and "errorMessage (startGame rnd s) = None"
    and "isWin (startGame rnd s) = False"
    using assms(1) by (simp_all add: startGame_def generateBalls_def)
qed

text \<open>
  Claim C4, amended. With \<open>ballCount < colorCount * 2\<close>, starting a session sets the error
  message, whose pieces include the minimum \<open>colorCount * 2\<close>, and produces no batch:
  \<^verbatim>\<open>generateBalls\<close> returns the empty batch and \<^verbatim>\<open>startGame\<close> changes nothing but the
  message. With \<open>ballCount \<ge> colorCount * 2\<close>, \<open>colorCount\<close> at least one and at most the
  palette's six, and \<open>ballCount\<close> below \<open>2\<^sup>3\<^sup>2\<close>, starting clears the message and installs
  the batch of \<^verbatim>\<open>generateBalls\<close>: exactly \<open>ballCount\<close> balls, ball \<open>i\<close> coloured with entry
  \<open>i mod colorCount\<close> of the first \<open>colorCount\<close> palette colours, each with zero velocity.
\<close>

theorem generateBalls_validation:
  "(cfg_ballCount s < cfg_colorCount s * 2 \<longrightarrow>
      generateBalls rnd (cfg_ballCount s) (cfg_colorCount s)
        = (Some (error_text (cfg_ballCount s) (cfg_colorCount s)), []) \<and>
      Count (cfg_colorCount s * 2) \<in> set (error_text (cfg_ballCount s) (cfg_colorCount s)) \<and>
      startGame rnd s =
        s\<lparr>errorMessage := Some (error_text (cfg_ballCount s) (cfg_colorCount s))\<rparr>) \<and>
   (cfg_colorCount s * 2 \<le> cfg_ballCount s \<and> 0 < cfg_colorCount s \<and>
    cfg_colorCount s \<le> length palette \<and> cfg_ballCount s < 2 ^ 32 \<longrightarrow>
      errorMessage (startGame rnd s) = None \<and>
      ballsRef (startGame rnd s) = snd (generateBalls rnd (cfg_ballCount s) (cfg_colorCount s)) \<and>
      length (ballsRef (startGame rnd s)) = cfg_ballCount s \<and>
      (\<forall>i < cfg_ballCount s.
         ball_color (ballsRef (startGame rnd s) ! i)
           = Some (take (cfg_colorCount s) palette ! (i mod cfg_colorCount s)) \<and>
         ball_vx (ballsRef (startGame rnd s) ! i) = 0 \<and>
         ball_vy (ballsRef (startGame rnd s) ! i) = 0))"
proof (intro conjI impI)
  assume f: "cfg_ballCount s < cfg_colorCount s * 2"
  then show "generateBalls rnd (cfg_ballCount s) (cfg_colorCount s)
        = (Some (error_text (cfg_ballCount s) (cfg_colorCount s)), [])"
    by (simp add: generateBalls_def)
  show "Count (cfg_colorCount s * 2) \<in> set (error_text (cfg_ballCount s) (cfg_colorCount s))"
    by (simp add: error_text_def)
  from f show "startGame rnd s =
        s\<lparr>errorMessage := Some (error_text (cfg_ballCount s) (cfg_colorCount s))\<rparr>"
    by (rule startGame_fails)
next
  assume a: "cfg_colorCount s * 2 \<le> cfg_ballCount s \<and> 0 < cfg_colorCount s \<and>
    cfg_colorCount s \<le> length palette \<and> cfg_ballCount s < 2 ^ 32"
  then have a1: "cfg_colorCount s * 2 \<le> cfg_ballCount s" and a2: "0 < cfg_colorCount s"
    and a3: "cfg_colorCount s \<le> length palette"
    by simp_all
  note sp = startGame_spawns [OF a1 a2, of rnd]
  show "errorMessage (startGame rnd s) = None" by (rule sp(2))
  show "ballsRef (startGame rnd s) = snd (generateBalls rnd (cfg_ballCount s) (cfg_colorCount s))"
    using a1 by (simp add: sp(1) generateBalls_def)
  show "length (ballsRef (startGame rnd s)) = cfg_ballCount s"
    by (simp add: sp(1))
  show "\<forall>i < cfg_ballCount s.
         ball_color (ballsRef (startGame rnd s) ! i)
           = Some (take (cfg_colorCount s) palette ! (i mod cfg_colorCount s)) \<and>
         ball_vx (ballsRef (startGame rnd s) ! i) = 0 \<and>
         ball_vy (ballsRef (startGame rnd s) ! i) = 0"
  proof (intro allI impI)
    fix i assume i: "i < cfg_ballCount s"
    have m: "i mod cfg_colorCount s < cfg_colorCount s" using a2 by simp
    then have "i mod cfg_colorCount s < length palette" using a3 by linarith
    with i m a2 show "ball_color (ballsRef (startGame rnd s) ! i)
           = Some (take (cfg_colorCount s) palette ! (i mod cfg_colorCount s)) \<and>
         ball_vx (ballsRef (startGame rnd s) ! i) = 0 \<and>
         ball_vy (ballsRef (startGame rnd s) ! i) = 0"
      by (simp add: sp(1) spawn_ball_fields pick_color_def js_index_def)
  qed
qed

theorem generateBalls_validation_witness:
  "startGame (\<lambda>k. 0) short_config =
     short_config\<lparr>errorMessage :=
       Some [Chars ''Error: For '', Count 2, Chars '' colors, you need at least '', Count 4,
             Chars '' balls. Currently set: '', Count 3, Chars ''.'']\<rparr> \<and>
   generateBalls (\<lambda>k. 0) 3 2 =
     (Some [Chars ''Error: For '', Count 2, Chars '' colors, you need at least '', Count 4,
            Chars '' balls. Currently set: '', Count 3, Chars ''.''], []) \<and>
   errorMessage (startGame (\<lambda>k. 0) seven_in_three) = None \<and>
   length (ballsRef (startGame (\<lambda>k. 0) seven_in_three)) = 7 \<and>
   ball_color (ballsRef (startGame (\<lambda>k. 0) seven_in_three) ! 2) = Some ''blue'' \<and>
   ball_color (ballsRef (startGame (\<lambda>k. 0) seven_in_three) ! 4) = Some ''green'' \<and>
   ball_vx (ballsRef (startGame (\<lambda>k. 0) seven_in_three) ! 4) = 0"
proof -
  have cfg: "cfg_ballCount short_config = 3" "cfg_colorCount short_config = 2"
    "cfg_ballCount seven_in_three = 7" "cfg_colorCount seven_in_three = 3"
    by (simp_all add: short_config_def seven_in_three_def)
  have p: "length palette = 6" by (simp add: palette_def)
  have t: "take 3 palette = [''red'', ''green'', ''blue'']" by (simp add: palette_def)
  have e: "error_text 3 2 =
      [Chars ''Error: For '', Count 2, Chars '' colors, you need at least '', Count 4,
       Chars '' balls. Currently set: '', Count 3, Chars ''.'']"
    by (simp add: error_text_def)
  note f = generateBalls_validation [of short_config "\<lambda>k. 0", unfolded cfg]
  note g = generateBalls_validation [of seven_in_three "\<lambda>k. 0", unfolded cfg]
  let ?bs = "ballsRef (startGame (\<lambda>k. 0) seven_in_three)"
  have ok: "(3::nat) * 2 \<le> 7 \<and> (0::nat) < 3 \<and> 3 \<le> length palette \<and> (7::nat) < 2 ^ 32"
    by (simp add: p)
  from g ok have n: "errorMessage (startGame (\<lambda>k. 0) seven_in_three) = None"
    and len: "length ?bs = 7"
    and c: "\<forall>i<7. ball_color (?bs ! i) = Some (take 3 palette ! (i mod 3)) \<and>
                   ball_vx (?bs ! i) = 0 \<and> ball_vy (?bs ! i) = 0"
    by blast+
  have c2: "ball_color (?bs ! 2) = Some ''blue''"
    using c [rule_format, of 2] by (simp add: t)
  have c4: "ball_color (?bs ! 4) = Some ''green'' \<and> ball_vx (?bs ! 4) = 0"
    using c [rule_format, of 4] by (simp add: t)
  have "(3::nat) < 2 * 2" by simp
  with f have "generateBalls (\<lambda>k. 0) 3 2 = (Some (error_text 3 2), [])"
    and "startGame (\<lambda>k. 0) short_config = short_config\<lparr>errorMessage := Some (error_text 3 2)\<rparr>"
    by simp_all
  with n len c2 c4 show ?thesis by (simp add: e)
qed

text \<open>
  Claim C4 as stated ranges over every pair with \<open>ballCount \<ge> colorCount * 2\<close>. With seven
  colours and fourteen balls the constraint holds and starting installs fourteen balls, but
  ball 6 reads the palette past its end: its colour is \<^verbatim>\<open>undefined\<close>, not a palette
  colour.
\<close>

theorem generateBalls_seven_colors:
  "cfg_colorCount fourteen_in_seven * 2 \<le> cfg_ballCount fourteen_in_seven \<and>
   length (ballsRef (startGame (\<lambda>k. 0) fourteen_in_seven)) = 14 \<and>
   ballsRef (startGame (\<lambda>k. 0) fourteen_in_seven) = snd (generateBalls (\<lambda>k. 0) 14 7) \<and>
   ball_color (ballsRef (startGame (\<lambda>k. 0) fourteen_in_seven) ! 6) = None \<and>
   ball_color (ballsRef (startGame (\<lambda>k. 0) fourteen_in_seven) ! 6) \<notin> Some ` set palette"
proof -
  have cfg: "cfg_ballCount fourteen_in_seven = 14" "cfg_colorCount fourteen_in_seven = 7"
    by (simp_all add: fourteen_in_seven_def)
  have b: "ballsRef (startGame (\<lambda>k. 0) fourteen_in_seven) = map (spawn_ball (\<lambda>k. 0) 7) [0..<14]"
    using startGame_spawns(1) [of fourteen_in_seven "\<lambda>k. 0"] by (simp add: cfg)
  have g: "snd (generateBalls (\<lambda>k. 0) 14 7) = map (spawn_ball (\<lambda>k. 0) 7) [0..<14]"
    by (simp add: generateBalls_def)
  have c: "ball_color (map (spawn_ball (\<lambda>k. 0) 7) [0..<14] ! 6) = None"
    by (simp add: spawn_ball_fields pick_color_def js_index_def palette_def)
  show ?thesis
    unfolding b g using c by (simp add: cfg)
qed

section \<open>The integrator\<close>








lemma length_collide [simp]: "length (collide i j balls) = length balls"
  by (simp add: collide_def Let_def)

lemma length_fold_collide [simp]: "length (fold (collide i) js balls) = length balls"
  by (induction js arbitrary: balls) simp_all

lemma length_step_ball [simp]: "length (step_ball cursor won i balls) = length balls"
  by (simp add: step_ball_def Let_def)

lemma length_fold_step_ball [simp]:
  "length (fold (step_ball cursor won) is balls) = length balls"
  by (induction "is" arbitrary: balls) simp_all

lemma length_animate_balls [simp]: "length (animate_balls cursor won balls) = length balls"
  by (simp add: animate_balls_def)

lemma collide_other: "m \<noteq> i \<Longrightarrow> m \<noteq> j \<Longrightarrow> collide i j balls ! m = balls ! m"
  by (simp add: collide_def Let_def)

lemma fold_collide_other:
  "m \<noteq> i \<Longrightarrow> m \<notin> set js \<Longrightarrow> fold (collide i) js balls ! m = balls ! m"
  by (induction js arbitrary: balls) (simp_all add: collide_other)

lemma step_ball_earlier: "m < i \<Longrightarrow> step_ball cursor won i balls ! m = balls ! m"
  by (simp add: step_ball_def Let_def fold_collide_other)

lemma step_ball_self:
  "i < length balls \<Longrightarrow>
   \<exists>b. step_ball cursor won i balls ! i = bounce (clamp_speed (integrate b))"
  by (auto simp: step_ball_def Let_def)

lemma bounce_in_arena: "in_arena (bounce b)"
  by (simp add: bounce_def in_arena_def Let_def game_consts)

lemma step_ball_settles:
  assumes "i < length balls"
  shows "in_arena (step_ball cursor won i balls ! i)"
  using step_ball_self [OF assms, of cursor won]
  by (auto simp: bounce_in_arena)

lemma fold_step_ball_settled:
  "k \<le> length balls \<Longrightarrow> m < k \<Longrightarrow>
   in_arena (fold (step_ball cursor won) [0..<k] balls ! m)"
proof (induction k)
  case 0
  then show ?case by simp
next
  case (Suc k)
  let ?bs = "fold (step_ball cursor won) [0..<k] balls"
  have f: "fold (step_ball cursor won) [0..<Suc k] balls = step_ball cursor won k ?bs"
    by simp
  show ?case
  proof (cases "m = k")
    case True
    have "k < length ?bs" using Suc.prems by simp
    from step_ball_settles [OF this] show ?thesis unfolding f True .
  next
    case False
    then have m: "m < k" using Suc.prems by simp
    with Suc have "in_arena (?bs ! m)" by simp
    then show ?thesis unfolding f by (simp add: step_ball_earlier m)
  qed
qed

lemma animate_balls_settled:
  "b \<in> set (animate_balls cursor won balls) \<Longrightarrow> in_arena b"
proof -
  assume "b \<in> set (animate_balls cursor won balls)"
  then obtain m where m: "m < length balls" "b = animate_balls cursor won balls ! m"
    by (auto simp: in_set_conv_nth)
  then show ?thesis
    using fold_step_ball_settled [of "length balls" balls m cursor won]
    by (simp add: animate_balls_def)
qed

lemma run_frames_settled:
  assumes "frames \<noteq> []" and "b \<in> set (run_frames frames balls)"
  shows "in_arena b"
proof -
  obtain fs cursor won where "frames = fs @ [(cursor, won)]"
    using assms(1) by (metis rev_exhaust surj_pair)
  then have "run_frames frames balls = animate_balls cursor won (run_frames fs balls)"
    by (simp add: run_frames_def)
  with assms(2) show ?thesis by (simp add: animate_balls_settled)
qed

lemma animate_balls_single:
  "animate_balls cursor won [b] = [bounce (clamp_speed (integrate (cursor_force cursor won b)))]"
  by (simp add: animate_balls_def step_ball_def)

text \<open>
  Claim C3. After one pass of the integrator over the batch, and so after any positive
  number of passes, every ball satisfies \<open>0 \<le> x \<le> FIELD_WIDTH - BALL_SIZE\<close> and
  \<open>0 \<le> y \<le> FIELD_HEIGHT - BALL_SIZE\<close>, for every batch, cursor and won flag: a ball is
  pushed by a collision only in the turns of the balls before it, and its own turn ends
  with the boundary handling.
\<close>

theorem arena_containment:
  "(\<forall>b \<in> set (animate_balls cursor won balls). in_arena b) \<and>
   (frames \<noteq> [] \<longrightarrow> (\<forall>b \<in> set (run_frames frames balls). in_arena b)) \<and>
   FIELD_WIDTH = 600 \<and> FIELD_HEIGHT = 500 \<and> BALL_SIZE = 20"
  using animate_balls_settled run_frames_settled
  by (simp add: game_consts)

theorem arena_containment_witness:
  "animate_balls None False
     [\<lparr>ball_x = 590, ball_y = 10, ball_vx = 10, ball_vy = 0, ball_color = Some ''red''\<rparr>] =
     [\<lparr>ball_x = 580, ball_y = 10, ball_vx = - (18 / 5), ball_vy = 0, ball_color = Some ''red''\<rparr>] \<and>
   in_arena \<lparr>ball_x = 580, ball_y = 10, ball_vx = - (18 / 5), ball_vy = 0, ball_color = Some ''red''\<rparr> \<and>
   in_arena (hd (run_frames [(None, False), (None, False)]
     [\<lparr>ball_x = 590, ball_y = 10, ball_vx = 10, ball_vy = 0, ball_color = Some ''red''\<rparr>]))"
proof -
  define b where "b = \<lparr>ball_x = 590, ball_y = 10, ball_vx = 10, ball_vy = 0, ball_color = Some ''red''\<rparr>"
  define b' where "b' = \<lparr>ball_x = 580, ball_y = 10, ball_vx = - (18 / 5), ball_vy = 0, ball_color = Some ''red''\<rparr>"
  have i: "integrate (cursor_force None False b) =
      \<lparr>ball_x = 600, ball_y = 10, ball_vx = 97 / 10, ball_vy = 0, ball_color = Some ''red''\<rparr>"
    by (simp add: b_def cursor_force_def integrate_def FRICTION_def)
  have c: "clamp_speed \<lparr>ball_x = 600, ball_y = 10, ball_vx = 97 / 10, ball_vy = 0, ball_color = Some ''red''\<rparr>
      = \<lparr>ball_x = 600, ball_y = 10, ball_vx = 6, ball_vy = 0, ball_color = Some ''red''\<rparr>"
    by (simp add: clamp_speed_def hypot_axis1 MAX_SPEED_def)
  have e: "animate_balls None False [b] = [b']"
    unfolding animate_balls_single i c by (simp add: bounce_def b'_def game_consts)
  let ?fs = "[(None, False), (None, False)] :: (Position option \<times> bool) list"
  have "length (run_frames ?fs [b]) = 1"
    by (simp add: run_frames_def)
  then have "hd (run_frames ?fs [b]) \<in> set (run_frames ?fs [b])"
    by (intro hd_in_set) auto
  moreover have "b' \<in> set (animate_balls None False [b])"
    by (simp add: e)
  ultimately show ?thesis
    using arena_containment [of None False "[b]" ?fs] e
    unfolding b_def b'_def by blast
qed

lemma cursor_force_off: "cursor = None \<or> won \<Longrightarrow> cursor_force cursor won b = b"
  by (auto simp: cursor_force_def split: option.splits)

lemma animate_balls_pair:
  "animate_balls cursor won [a, b] =
     (let p = collide 0 1 [cursor_force cursor won a, b]
      in [bounce (clamp_speed (integrate (p ! 0))),
          bounce (clamp_speed (integrate (cursor_force cursor won (p ! 1))))])"
proof -
  have u: "[0..<length [a, b]] = [0, 1]" "[Suc 0..<Suc (Suc 0)] = [Suc 0]" "[Suc 1..<Suc (Suc 0)] = []"
    by (simp_all add: upt_rec)
  have len: "length (collide 0 1 xs) = length xs" for xs
    by simp
  show ?thesis
    unfolding animate_balls_def u
    apply (simp add: step_ball_def Let_def u del: upt_Suc)
    apply (cases "collide 0 (Suc 0) [cursor_force cursor won a, b]")
    using len [of "[cursor_force cursor won a, b]"] apply simp
    subgoal for h t
      apply (cases t)
      using len [of "[cursor_force cursor won a, b]"] apply simp
      using len [of "[cursor_force cursor won a, b]"] apply simp
      done
    done
qed

lemma bounce_x: "ball_x (bounce b) = max 0 (min (FIELD_WIDTH - BALL_SIZE) (ball_x b))"
  by (simp add: bounce_def Let_def game_consts)

lemma bounce_y: "ball_y (bounce b) = max 0 (min (FIELD_HEIGHT - BALL_SIZE) (ball_y b))"
  by (simp add: bounce_def Let_def game_consts)

lemma clamp_speed_pos [simp]:
  "ball_x (clamp_speed b) = ball_x b" "ball_y (clamp_speed b) = ball_y b"
  by (simp_all add: clamp_speed_def Let_def)

lemma integrate_pos [simp]:
  "ball_x (integrate b) = ball_x b + ball_vx b" "ball_y (integrate b) = ball_y b + ball_vy b"
  by (simp_all add: integrate_def)

lemma clamp_apart:
  fixes a b e L :: real
  assumes "0 \<le> a" "a \<le> L" "0 \<le> b" "b \<le> L" "b < a" "0 < e" "a - b < L"
  shows "a - b < max 0 (min L (a + e)) - max 0 (min L (b - e))"
  using assms by (auto simp: max_def min_def)

lemma square_mono_strict:
  fixes p q :: real
  assumes "\<bar>q\<bar> < \<bar>p\<bar>"
  shows "q * q < p * p"
  using assms by (metis abs_mult_self_eq abs_ge_zero mult_strict_mono' abs_mult)


lemma center_dist_corner:
  "center_dist a b = hypot (ball_x a - ball_x b) (ball_y a - ball_y b)"
  by (simp add: center_dist_def)

lemma abs_le_hypot: "\<bar>a\<bar> \<le> hypot a b" "\<bar>b\<bar> \<le> hypot a b"
proof -
  have "sqrt (a * a) \<le> sqrt (a * a + b * b)" "sqrt (b * b) \<le> sqrt (a * a + b * b)"
    by (simp_all only: real_sqrt_le_iff) simp_all
  then show "\<bar>a\<bar> \<le> hypot a b" "\<bar>b\<bar> \<le> hypot a b"
    by (simp_all add: hypot_def)
qed

lemma axis_apart:
  fixes a b e L :: real
  assumes "0 \<le> a" "a \<le> L" "0 \<le> b" "b \<le> L" "\<bar>a - b\<bar> < L"
    and "b < a \<longrightarrow> 0 < e" "a < b \<longrightarrow> e < 0" "a = b \<longrightarrow> e = 0"
  defines "a' \<equiv> max 0 (min L (a + e))" and "b' \<equiv> max 0 (min L (b - e))"
  shows "(a - b) * (a - b) \<le> (a' - b') * (a' - b')"
    and "a \<noteq> b \<Longrightarrow> (a - b) * (a - b) < (a' - b') * (a' - b')"
proof -
  consider "b < a" | "a < b" | "a = b" by linarith
  then have "(a = b \<and> a' = b') \<or> \<bar>a - b\<bar> < \<bar>a' - b'\<bar>"
  proof cases
    case 1
    then have "a - b < a' - b'"
      unfolding a'_def b'_def using assms(1-8) by (intro clamp_apart) auto
    with 1 show ?thesis by simp
  next
    case 2
    then have "b - a < max 0 (min L (b + (- e))) - max 0 (min L (a - (- e)))"
      using assms(1-8) by (intro clamp_apart) auto
    then have "b - a < b' - a'" by (simp add: a'_def b'_def)
    with 2 show ?thesis by simp
  next
    case 3
    then show ?thesis using assms(1-8) by (simp add: a'_def b'_def)
  qed
  then show "(a - b) * (a - b) \<le> (a' - b') * (a' - b')"
    and "a \<noteq> b \<Longrightarrow> (a - b) * (a - b) < (a' - b') * (a' - b')"
    using square_mono_strict [of "a - b" "a' - b'"] by auto
qed

lemma collide_pair_overlapping:
  assumes "0 < hypot (ball_x a - ball_x b) (ball_y a - ball_y b)"
    and "hypot (ball_x a - ball_x b) (ball_y a - ball_y b) < BALL_SIZE"
  defines "d \<equiv> hypot (ball_x a - ball_x b) (ball_y a - ball_y b)"
  shows "collide 0 1 [a, b] =
    [a\<lparr> ball_x := ball_x a + ((ball_x a - ball_x b) / d * (BALL_SIZE - d)) / 2,
        ball_y := ball_y a + ((ball_y a - ball_y b) / d * (BALL_SIZE - d)) / 2,
        ball_vx := ball_vx a + (ball_x a - ball_x b) / d * (3 / 10),
        ball_vy := ball_vy a + (ball_y a - ball_y b) / d * (3 / 10) \<rparr>,
     b\<lparr> ball_x := ball_x b - ((ball_x a - ball_x b) / d * (BALL_SIZE - d)) / 2,
        ball_y := ball_y b - ((ball_y a - ball_y b) / d * (BALL_SIZE - d)) / 2,
        ball_vx := ball_vx b - (ball_x a - ball_x b) / d * (3 / 10),
        ball_vy := ball_vy b - (ball_y a - ball_y b) / d * (3 / 10) \<rparr>]"
  using assms(1,2) by (simp add: collide_def Let_def d_def)


text \<open>
  Claim C7, amended. For a batch of two balls at rest inside the arena, with no cursor
  force acting (no cursor, or the game won), whose centre distance is strictly between 0
  and the diameter, one pass of the integrator strictly decreases the overlap.
\<close>

theorem overlap_decreases:
  assumes ar: "in_arena a" "in_arena b"
    and rest: "ball_vx a = 0" "ball_vy a = 0" "ball_vx b = 0" "ball_vy b = 0"
    and ov: "0 < center_dist a b" "center_dist a b < BALL_SIZE"
    and off: "cursor = None \<or> won"
  shows "overlap (animate_balls cursor won [a, b] ! 0) (animate_balls cursor won [a, b] ! 1)
         < overlap a b"
proof -
  define dx where "dx = ball_x a - ball_x b"
  define dy where "dy = ball_y a - ball_y b"
  define d where "d = hypot dx dy"
  define s where "s = (BALL_SIZE - d) / 2 + 3 / 10"
  define a' where "a' = animate_balls cursor won [a, b] ! 0"
  define b' where "b' = animate_balls cursor won [a, b] ! 1"
  have d: "0 < d" "d < BALL_SIZE" "center_dist a b = d"
    using ov by (simp_all add: d_def dx_def dy_def center_dist_corner)
  have "0 < (BALL_SIZE - d) / 2" using d(2) by simp
  then have s: "0 < s" unfolding s_def by (intro add_pos_pos) simp_all
  have small: "\<bar>dx\<bar> < 20" "\<bar>dy\<bar> < 20"
    using abs_le_hypot(1) [of dx dy] abs_le_hypot(2) [of dy dx] d
    by (simp_all add: d_def BALL_SIZE_def)
  have c: "collide 0 1 [a, b] =
    [a\<lparr> ball_x := ball_x a + (dx / d * (BALL_SIZE - d)) / 2,
        ball_y := ball_y a + (dy / d * (BALL_SIZE - d)) / 2,
        ball_vx := ball_vx a + dx / d * (3 / 10),
        ball_vy := ball_vy a + dy / d * (3 / 10) \<rparr>,
     b\<lparr> ball_x := ball_x b - (dx / d * (BALL_SIZE - d)) / 2,
        ball_y := ball_y b - (dy / d * (BALL_SIZE - d)) / 2,
        ball_vx := ball_vx b - dx / d * (3 / 10),
        ball_vy := ball_vy b - dy / d * (3 / 10) \<rparr>]"
    unfolding d_def dx_def dy_def
    using d(1,2) unfolding d_def dx_def dy_def by (rule collide_pair_overlapping)
  have c': "collide 0 (Suc 0) [a, b] = collide 0 1 [a, b]" by simp
  have dn: "d \<noteq> 0" using d(1) by simp
  have p0: "ball_x (collide 0 (Suc 0) [a, b] ! 0) + ball_vx (collide 0 (Suc 0) [a, b] ! 0)
              = ball_x a + dx / d * s"
           "ball_y (collide 0 (Suc 0) [a, b] ! 0) + ball_vy (collide 0 (Suc 0) [a, b] ! 0)
              = ball_y a + dy / d * s"
    unfolding c' c using dn by (simp_all add: rest s_def field_simps)
  have p1: "ball_x (collide 0 (Suc 0) [a, b] ! Suc 0) + ball_vx (collide 0 (Suc 0) [a, b] ! Suc 0)
              = ball_x b - dx / d * s"
           "ball_y (collide 0 (Suc 0) [a, b] ! Suc 0) + ball_vy (collide 0 (Suc 0) [a, b] ! Suc 0)
              = ball_y b - dy / d * s"
    unfolding c' c using dn by (simp_all add: rest s_def field_simps)
  have xa: "ball_x a' = max 0 (min (FIELD_WIDTH - BALL_SIZE) (ball_x a + dx / d * s))"
    and ya: "ball_y a' = max 0 (min (FIELD_HEIGHT - BALL_SIZE) (ball_y a + dy / d * s))"
    and xb: "ball_x b' = max 0 (min (FIELD_WIDTH - BALL_SIZE) (ball_x b - dx / d * s))"
    and yb: "ball_y b' = max 0 (min (FIELD_HEIGHT - BALL_SIZE) (ball_y b - dy / d * s))"
    unfolding a'_def b'_def animate_balls_pair
    by (simp_all only: cursor_force_off [OF off] Let_def bounce_x bounce_y
          clamp_speed_pos integrate_pos nth_Cons_0 nth_Cons_Suc One_nat_def p0 p1)
  have sx: "(ball_x b < ball_x a \<longrightarrow> 0 < dx / d * s) \<and> (ball_x a < ball_x b \<longrightarrow> dx / d * s < 0) \<and>
            (ball_x a = ball_x b \<longrightarrow> dx / d * s = 0)"
    using d(1) s by (simp add: dx_def zero_less_mult_iff mult_less_0_iff zero_less_divide_iff divide_less_0_iff)
  have sy: "(ball_y b < ball_y a \<longrightarrow> 0 < dy / d * s) \<and> (ball_y a < ball_y b \<longrightarrow> dy / d * s < 0) \<and>
            (ball_y a = ball_y b \<longrightarrow> dy / d * s = 0)"
    using d(1) s by (simp add: dy_def zero_less_mult_iff mult_less_0_iff zero_less_divide_iff divide_less_0_iff)
  have bx: "0 \<le> ball_x a" "ball_x a \<le> FIELD_WIDTH - BALL_SIZE" "0 \<le> ball_x b" "ball_x b \<le> FIELD_WIDTH - BALL_SIZE"
    and by': "0 \<le> ball_y a" "ball_y a \<le> FIELD_HEIGHT - BALL_SIZE" "0 \<le> ball_y b" "ball_y b \<le> FIELD_HEIGHT - BALL_SIZE"
    using ar by (simp_all add: in_arena_def)
  have wx: "\<bar>ball_x a - ball_x b\<bar> < FIELD_WIDTH - BALL_SIZE"
    and wy: "\<bar>ball_y a - ball_y b\<bar> < FIELD_HEIGHT - BALL_SIZE"
    using small by (simp_all add: dx_def dy_def game_consts)
  note ax = axis_apart [OF bx wx sx [THEN conjunct1] sx [THEN conjunct2, THEN conjunct1]
      sx [THEN conjunct2, THEN conjunct2], folded xa xb]
  note ay = axis_apart [OF by' wy sy [THEN conjunct1] sy [THEN conjunct2, THEN conjunct1]
      sy [THEN conjunct2, THEN conjunct2], folded ya yb]
  have "dx \<noteq> 0 \<or> dy \<noteq> 0" using d(1) by (simp add: d_def hypot_pos_iff)
  then have "dx * dx + dy * dy
      < (ball_x a' - ball_x b') * (ball_x a' - ball_x b') + (ball_y a' - ball_y b') * (ball_y a' - ball_y b')"
  proof
    assume "dx \<noteq> 0"
    then have "ball_x a \<noteq> ball_x b" by (simp add: dx_def)
    from ax(2) [OF this] ay(1) show ?thesis
      unfolding dx_def dy_def by (rule add_less_le_mono)
  next
    assume "dy \<noteq> 0"
    then have "ball_y a \<noteq> ball_y b" by (simp add: dy_def)
    from ax(1) ay(2) [OF this] show ?thesis
      unfolding dx_def dy_def by (rule add_le_less_mono)
  qed
  then have "d < center_dist a' b'"
    by (simp add: d_def center_dist_corner hypot_def)
  then show ?thesis
    using d(3) by (simp add: overlap_def a'_def b'_def)
qed


theorem overlap_decreases_witness:
  "overlap \<lparr>ball_x = 100, ball_y = 100, ball_vx = 0, ball_vy = 0, ball_color = Some ''red''\<rparr>
           \<lparr>ball_x = 110, ball_y = 100, ball_vx = 0, ball_vy = 0, ball_color = Some ''red''\<rparr> = 10 \<and>
   overlap
     (animate_balls None False
        [\<lparr>ball_x = 100, ball_y = 100, ball_vx = 0, ball_vy = 0, ball_color = Some ''red''\<rparr>,
         \<lparr>ball_x = 110, ball_y = 100, ball_vx = 0, ball_vy = 0, ball_color = Some ''red''\<rparr>] ! 0)
     (animate_balls None False
        [\<lparr>ball_x = 100, ball_y = 100, ball_vx = 0, ball_vy = 0, ball_color = Some ''red''\<rparr>,
         \<lparr>ball_x = 110, ball_y = 100, ball_vx = 0, ball_vy = 0, ball_color = Some ''red''\<rparr>] ! 1) < 10"
proof -
  define a where "a = \<lparr>ball_x = 100, ball_y = 100, ball_vx = 0, ball_vy = 0, ball_color = Some ''red''\<rparr>"
  define b where "b = \<lparr>ball_x = 110, ball_y = 100, ball_vx = 0, ball_vy = 0, ball_color = Some ''red''\<rparr>"
  have cd: "center_dist a b = 10"
    by (simp add: center_dist_def a_def b_def hypot_axis1)
  have o: "overlap a b = 10"
    by (simp add: overlap_def cd BALL_SIZE_def)
  have "overlap (animate_balls None False [a, b] ! 0) (animate_balls None False [a, b] ! 1)
        < overlap a b"
    by (rule overlap_decreases)
       (simp_all add: cd BALL_SIZE_def, simp_all add: a_def b_def in_arena_def game_consts)
  then show ?thesis
    using o unfolding a_def b_def by simp
qed

text \<open>
  Claim C7 as stated puts no condition on the velocities. Two balls overlapping by 1 and
  moving towards each other at speed 6 (the speed bound) overlap by 11.4 after one pass:
  the collision separates them and adds 0.3 to each, and the integration that follows
  moves each by 5.7 towards the other.
\<close>

theorem overlap_grows_when_closing:
  "overlap \<lparr>ball_x = 100, ball_y = 100, ball_vx = 6, ball_vy = 0, ball_color = Some ''red''\<rparr>
           \<lparr>ball_x = 119, ball_y = 100, ball_vx = - 6, ball_vy = 0, ball_color = Some ''red''\<rparr> = 1 \<and>
   animate_balls None False
        [\<lparr>ball_x = 100, ball_y = 100, ball_vx = 6, ball_vy = 0, ball_color = Some ''red''\<rparr>,
         \<lparr>ball_x = 119, ball_y = 100, ball_vx = - 6, ball_vy = 0, ball_color = Some ''red''\<rparr>] =
        [\<lparr>ball_x = 526 / 5, ball_y = 100, ball_vx = 5529 / 1000, ball_vy = 0, ball_color = Some ''red''\<rparr>,
         \<lparr>ball_x = 569 / 5, ball_y = 100, ball_vx = - (5529 / 1000), ball_vy = 0, ball_color = Some ''red''\<rparr>] \<and>
   overlap \<lparr>ball_x = 526 / 5, ball_y = 100, ball_vx = 5529 / 1000, ball_vy = 0, ball_color = Some ''red''\<rparr>
           \<lparr>ball_x = 569 / 5, ball_y = 100, ball_vx = - (5529 / 1000), ball_vy = 0, ball_color = Some ''red''\<rparr>
     = 57 / 5"
proof -
  define a where "a = \<lparr>ball_x = 100, ball_y = 100, ball_vx = 6, ball_vy = 0, ball_color = Some ''red''\<rparr>"
  define b where "b = \<lparr>ball_x = 119, ball_y = 100, ball_vx = - 6, ball_vy = 0, ball_color = Some ''red''\<rparr>"
  define a1 where "a1 = \<lparr>ball_x = 199 / 2, ball_y = 100, ball_vx = 57 / 10, ball_vy = 0, ball_color = Some ''red''\<rparr>"
  define b1 where "b1 = \<lparr>ball_x = 239 / 2, ball_y = 100, ball_vx = - (57 / 10), ball_vy = 0, ball_color = Some ''red''\<rparr>"
  define a2 where "a2 = \<lparr>ball_x = 526 / 5, ball_y = 100, ball_vx = 5529 / 1000, ball_vy = 0, ball_color = Some ''red''\<rparr>"
  define b2 where "b2 = \<lparr>ball_x = 569 / 5, ball_y = 100, ball_vx = - (5529 / 1000), ball_vy = 0, ball_color = Some ''red''\<rparr>"
  have o: "overlap a b = 1"
    by (simp add: overlap_def center_dist_def a_def b_def hypot_axis1 BALL_SIZE_def)
  have o2: "overlap a2 b2 = 57 / 5"
    by (simp add: overlap_def center_dist_def a2_def b2_def hypot_axis1 BALL_SIZE_def)
  have c: "collide 0 1 [a, b] = [a1, b1]"
    by (simp add: collide_def Let_def a_def b_def a1_def b1_def hypot_axis1 BALL_SIZE_def)
  have fa: "bounce (clamp_speed (integrate a1)) = a2"
    by (simp add: integrate_def clamp_speed_def bounce_def a1_def a2_def hypot_axis1 game_consts)
  have fb: "bounce (clamp_speed (integrate b1)) = b2"
    by (simp add: integrate_def clamp_speed_def bounce_def b1_def b2_def hypot_axis1 game_consts)
  have "animate_balls None False [a, b] = [a2, b2]"
    by (simp add: animate_balls_pair cursor_force_off c [simplified] fa fb)
  then show ?thesis
    using o o2 unfolding a_def b_def a2_def b2_def by simp
qed

lemma animate_balls_won: "animate_balls cursor True balls = animate_balls None True balls"
proof -
  have "step_ball cursor True = step_ball None True"
    by (intro ext) (simp add: step_ball_def cursor_force_off)
  then show ?thesis by (simp add: animate_balls_def)
qed

lemma collide_apart:
  "\<not> strictly_overlapping (balls ! i) (balls ! j) \<Longrightarrow> collide i j balls = balls"
  by (auto simp: collide_def strictly_overlapping_def Let_def)

lemma fold_collide_apart:
  "\<forall>j \<in> set js. \<not> strictly_overlapping (balls ! i) (balls ! j) \<Longrightarrow>
   fold (collide i) js balls = balls"
  by (induction js) (simp_all add: collide_apart)

lemma settle_at_rest:
  assumes "in_arena b" "ball_vx b = 0" "ball_vy b = 0"
  shows "bounce (clamp_speed (integrate b)) = b"
proof -
  have i: "integrate b = b" using assms by (simp add: integrate_def)
  have c: "clamp_speed b = b" using assms by (simp add: clamp_speed_def hypot_def MAX_SPEED_def)
  have "bounce b = b" using assms(1) by (simp add: bounce_def in_arena_def Let_def)
  with i c show ?thesis by simp
qed

lemma step_ball_at_rest:
  assumes "at_rest balls" "i < length balls" "cursor = None \<or> won"
  shows "step_ball cursor won i balls = balls"
proof -
  have b: "in_arena (balls ! i)" "ball_vx (balls ! i) = 0" "ball_vy (balls ! i) = 0"
    using assms(1,2) by (simp_all add: at_rest_def)
  have "\<forall>j \<in> set [Suc i..<length balls]. \<not> strictly_overlapping (balls ! i) (balls ! j)"
    using assms(1,2) by (simp add: at_rest_def)
  then have "fold (collide i) [Suc i..<length balls] balls = balls"
    by (rule fold_collide_apart)
  then show ?thesis
    using assms(3) by (simp add: step_ball_def cursor_force_off settle_at_rest [OF b])
qed

lemma fold_fixed: "\<forall>i \<in> set is. f i x = x \<Longrightarrow> fold f is x = x"
  by (induction "is") simp_all

lemma animate_balls_at_rest:
  assumes "at_rest balls" "cursor = None \<or> won"
  shows "animate_balls cursor won balls = balls"
  unfolding animate_balls_def
  by (rule fold_fixed) (simp add: step_ball_at_rest [OF assms(1) _ assms(2)])

text \<open>
  Claim C2, amended. In a session whose won flag is set, one frame applies no cursor force:
  the batch becomes what a pass of the integrator without a cursor makes of it, and nothing
  else of the session changes. The collision pass, the integration, the friction, the clamp
  and the boundary handling still run; a batch at rest keeps every position and velocity.
\<close>

theorem won_frame:
  assumes "isWin s"
  shows "animate s = s\<lparr>ballsRef := animate_balls None True (ballsRef s)\<rparr> \<and>
         (at_rest (ballsRef s) \<longrightarrow> animate s = s)"
proof -
  have e: "animate_balls None True [] = []" by (simp add: animate_balls_def)
  have a: "animate s = s\<lparr>ballsRef := animate_balls None True (ballsRef s)\<rparr>"
  proof (cases "ballsRef s = []")
    case True
    then have "s\<lparr>ballsRef := animate_balls None True (ballsRef s)\<rparr> = s" by (simp add: e)
    with True show ?thesis by (simp add: animate_def)
  next
    case False
    with assms show ?thesis
      by (simp add: animate_def Let_def animate_balls_won [of "cursorRef s"])
  qed
  moreover have "animate s = s" if "at_rest (ballsRef s)"
    unfolding a by (simp add: animate_balls_at_rest [OF that])
  ultimately show ?thesis by blast
qed

text \<open>
  Claim C2 as stated says a won session keeps every position and velocity. Only the cursor
  force is guarded by the won flag: a ball with velocity \<open>(1, 0)\<close> in a won session moves
  from \<open>x = 100\<close> to \<open>x = 101\<close> in one frame.
\<close>

theorem moving_ball_in_won_session:
  "isWin won_example \<and>
   ballsRef won_example =
     [\<lparr>ball_x = 100, ball_y = 100, ball_vx = 1, ball_vy = 0, ball_color = Some ''red''\<rparr>] \<and>
   ballsRef (animate won_example) =
     [\<lparr>ball_x = 101, ball_y = 100, ball_vx = 97 / 100, ball_vy = 0, ball_color = Some ''red''\<rparr>]"
  by (simp add: won_example_def animate_def animate_balls_single cursor_force_def integrate_def
      clamp_speed_def bounce_def hypot_axis1 game_consts)

theorem won_frame_witness:
  "isWin rest_example \<and> at_rest (ballsRef rest_example) \<and> animate rest_example = rest_example"
proof -
  have w: "isWin rest_example" by (simp add: rest_example_def)
  have "\<not> strictly_overlapping
      \<lparr>ball_x = 100, ball_y = 100, ball_vx = 0, ball_vy = 0, ball_color = Some ''red''\<rparr>
      \<lparr>ball_x = 130, ball_y = 100, ball_vx = 0, ball_vy = 0, ball_color = Some ''red''\<rparr>"
    by (simp add: strictly_overlapping_def hypot_axis1 BALL_SIZE_def)
  then have r: "at_rest (ballsRef rest_example)"
    by (simp add: rest_example_def at_rest_def in_arena_def game_consts less_Suc_eq)
  from won_frame [OF w] r w show ?thesis by blast
qed

section \<open>The speed bound in double precision\<close>

lemma rne_close: "\<bar>of_int (rne y) - y\<bar> \<le> 1 / 2"
proof -
  have "of_int \<lfloor>y\<rfloor> \<le> y" "y < of_int \<lfloor>y\<rfloor> + 1" by linarith+
  then show ?thesis by (auto simp: rne_def Let_def)
qed

lemma rne_eval: "of_int m - 1 / 2 < y \<Longrightarrow> y < of_int m + 1 / 2 \<Longrightarrow> rne y = m"
proof -
  assume a: "of_int m - 1 / 2 < y" "y < of_int m + 1 / 2"
  have c: "\<bar>of_int (rne y) - y\<bar> \<le> 1 / 2" by (rule rne_close)
  have "\<bar>(of_int (rne y) :: real) - of_int m\<bar> < 1" using a c by linarith
  then have "\<bar>rne y - m\<bar> < 1" by (metis of_int_diff of_int_abs of_int_less_1_iff)
  then show ?thesis by linarith
qed

lemma binade:
  assumes "x \<noteq> 0"
  shows "2 powr of_int \<lfloor>log 2 \<bar>x\<bar>\<rfloor> \<le> \<bar>x\<bar>"
    and "\<bar>x\<bar> < 2 powr (of_int \<lfloor>log 2 \<bar>x\<bar>\<rfloor> + 1)"
proof -
  have p: "0 < \<bar>x\<bar>" using assms by simp
  have "of_int \<lfloor>log 2 \<bar>x\<bar>\<rfloor> \<le> log 2 \<bar>x\<bar>" by linarith
  then have "2 powr of_int \<lfloor>log 2 \<bar>x\<bar>\<rfloor> \<le> 2 powr log 2 \<bar>x\<bar>" by simp
  then show "2 powr of_int \<lfloor>log 2 \<bar>x\<bar>\<rfloor> \<le> \<bar>x\<bar>" using p by simp
  have "log 2 \<bar>x\<bar> < of_int \<lfloor>log 2 \<bar>x\<bar>\<rfloor> + 1" by linarith
  then have "2 powr log 2 \<bar>x\<bar> < 2 powr (of_int \<lfloor>log 2 \<bar>x\<bar>\<rfloor> + 1)" by simp
  then show "\<bar>x\<bar> < 2 powr (of_int \<lfloor>log 2 \<bar>x\<bar>\<rfloor> + 1)" using p by simp
qed

lemma to_double_error: "\<bar>to_double x - x\<bar> \<le> \<bar>x\<bar> / 2 ^ 53"
proof (cases "x = 0")
  case True
  then show ?thesis by (simp add: to_double_def)
next
  case False
  define e :: real where "e = of_int \<lfloor>log 2 \<bar>x\<bar>\<rfloor>"
  define y where "y = \<bar>x\<bar> * 2 powr (52 - e)"
  have lo: "2 powr e \<le> \<bar>x\<bar>" unfolding e_def by (rule binade(1) [OF False])
  have unscale: "y * 2 powr (e - 52) = \<bar>x\<bar>"
    by (simp add: y_def powr_add [symmetric])
  have td: "to_double x = sgn x * of_int (rne y) * 2 powr (e - 52)"
    using False by (simp add: to_double_def Let_def e_def y_def)
  have "x = sgn x * (y * 2 powr (e - 52))"
    unfolding unscale by (simp add: sgn_mult_abs)
  then have "to_double x - x = sgn x * ((of_int (rne y) - y) * 2 powr (e - 52))"
    unfolding td by (simp add: algebra_simps)
  then have "\<bar>to_double x - x\<bar> = \<bar>of_int (rne y) - y\<bar> * 2 powr (e - 52)"
    using False by (simp add: abs_mult abs_sgn_eq)
  also have "\<dots> \<le> (1 / 2) * 2 powr (e - 52)"
    using rne_close [of y] by (intro mult_right_mono) simp_all
  also have "\<dots> = 2 powr e / 2 ^ 53"
  proof -
    have "2 powr (e - 52) = 2 powr e / 2 powr 52" by (simp add: powr_diff)
    also have "(2::real) powr 52 = 2 ^ 52" by simp
    finally show ?thesis by simp
  qed
  also have "\<dots> \<le> \<bar>x\<bar> / 2 ^ 53" using lo by (simp add: divide_right_mono)
  finally show ?thesis .
qed

lemma to_double_scaled:
  assumes "0 < x" "2 ^ 52 \<le> x * 2 ^ j" "x * 2 ^ j < 2 ^ 53"
  shows "to_double x = of_int (rne (x * 2 ^ j)) / 2 ^ j"
proof -
  have x: "x \<noteq> 0" "\<bar>x\<bar> = x" using assms(1) by simp_all
  have l1: "52 - real j \<le> log 2 x"
  proof -
    have "2 powr (52 - real j) = 2 ^ 52 / 2 ^ j"
      by (simp add: powr_diff powr_realpow)
    also have "\<dots> \<le> x" using assms(2) by (simp add: field_simps)
    finally show ?thesis using assms(1) by (simp add: le_log_iff)
  qed
  have l2: "log 2 x < 53 - real j"
  proof -
    have "x < 2 ^ 53 / 2 ^ j" using assms(3) by (simp add: field_simps)
    also have "\<dots> = 2 powr (53 - real j)"
      by (simp add: powr_diff powr_realpow)
    finally show ?thesis using assms(1) by (simp add: log_less_iff)
  qed
  have "\<lfloor>log 2 x\<rfloor> = 52 - int j"
    using l1 l2 by (intro floor_unique) simp_all
  then have e: "of_int \<lfloor>log 2 x\<rfloor> = 52 - real j" by simp
  have p: "2 powr real j = 2 ^ j" "2 powr - real j = 1 / 2 ^ j"
    by (simp_all add: powr_realpow powr_minus field_simps)
  show ?thesis
    using assms(1) by (simp add: to_double_def Let_def e p x)
qed

lemma to_double_eval:
  assumes "0 < x" "2 ^ 52 \<le> x * 2 ^ j" "x * 2 ^ j < 2 ^ 53"
    and "of_int m - 1 / 2 < x * 2 ^ j" "x * 2 ^ j < of_int m + 1 / 2"
  shows "to_double x = of_int m / 2 ^ j"
  using to_double_scaled [OF assms(1-3)] rne_eval [OF assms(4,5)] by simp

lemma rne_tie:
  assumes "y = of_int f + 1 / 2" "even m" "m = f \<or> m = f + 1"
  shows "rne y = m"
proof -
  have fl: "\<lfloor>y\<rfloor> = f" unfolding assms(1) by (intro floor_unique) simp_all
  have d: "y - of_int f = 1 / 2" unfolding assms(1) by simp
  have "rne y = (if even f then f else f + 1)"
    unfolding rne_def Let_def fl d by simp
  then show ?thesis
    using assms(2,3) by auto
qed

lemma to_double_tie:
  assumes "0 < x" "2 ^ 52 \<le> x * 2 ^ j" "x * 2 ^ j < 2 ^ 53"
    and "x * 2 ^ j = of_int f + 1 / 2" "even m" "m = f \<or> m = f + 1"
  shows "to_double x = of_int m / 2 ^ j"
  using to_double_scaled [OF assms(1-3)] rne_tie [OF assms(4-6)] by simp

lemma length_collide64 [simp]: "length (collide64 hyp i j balls) = length balls"
  by (simp add: collide64_def Let_def)

lemma length_fold_collide64 [simp]: "length (fold (collide64 hyp i) js balls) = length balls"
  by (induction js arbitrary: balls) simp_all

lemma length_step_ball64 [simp]: "length (step_ball64 hyp cursor won i balls) = length balls"
  by (simp add: step_ball64_def Let_def)

lemma length_fold_step_ball64 [simp]:
  "length (fold (step_ball64 hyp cursor won) is balls) = length balls"
  by (induction "is" arbitrary: balls) simp_all

lemma collide64_other: "m \<noteq> i \<Longrightarrow> m \<noteq> j \<Longrightarrow> collide64 hyp i j balls ! m = balls ! m"
  by (simp add: collide64_def Let_def)

lemma fold_collide64_other:
  "m \<noteq> i \<Longrightarrow> m \<notin> set js \<Longrightarrow> fold (collide64 hyp i) js balls ! m = balls ! m"
  by (induction js arbitrary: balls) (simp_all add: collide64_other)

lemma step_ball64_earlier: "m < i \<Longrightarrow> step_ball64 hyp cursor won i balls ! m = balls ! m"
  by (simp add: step_ball64_def Let_def fold_collide64_other)

lemma step_ball64_self:
  "i < length balls \<Longrightarrow>
   \<exists>b. step_ball64 hyp cursor won i balls ! i = bounce64 (clamp_speed64 hyp (integrate64 b))"
  by (auto simp: step_ball64_def Let_def)

lemma animate_balls64_last_turn:
  assumes "b \<in> set (animate_balls64 hyp cursor won balls)"
  shows "\<exists>q. b = bounce64 (clamp_speed64 hyp (integrate64 q))"
proof -
  have pre: "k \<le> length balls \<Longrightarrow> m < k \<Longrightarrow>
      \<exists>q. fold (step_ball64 hyp cursor won) [0..<k] balls ! m
           = bounce64 (clamp_speed64 hyp (integrate64 q))" for k m
  proof (induction k)
    case 0
    then show ?case by simp
  next
    case (Suc k)
    let ?bs = "fold (step_ball64 hyp cursor won) [0..<k] balls"
    have f: "fold (step_ball64 hyp cursor won) [0..<Suc k] balls = step_ball64 hyp cursor won k ?bs"
      by simp
    show ?case
    proof (cases "m = k")
      case True
      have "k < length ?bs" using Suc.prems by simp
      from step_ball64_self [OF this] show ?thesis unfolding f True .
    next
      case False
      then have m: "m < k" using Suc.prems by simp
      with Suc obtain q where "?bs ! m = bounce64 (clamp_speed64 hyp (integrate64 q))"
        by auto
      then show ?thesis unfolding f by (auto simp: step_ball64_earlier m)
    qed
  qed
  from assms obtain m where "m < length balls" "b = animate_balls64 hyp cursor won balls ! m"
    by (auto simp: in_set_conv_nth animate_balls64_def)
  then show ?thesis
    using pre [of "length balls" m] by (simp add: animate_balls64_def)
qed

lemma to_double_abs_le: "\<bar>to_double x\<bar> \<le> \<bar>x\<bar> * (1 + 1 / 2 ^ 53)"
proof -
  have "\<bar>to_double x\<bar> \<le> \<bar>x\<bar> + \<bar>to_double x - x\<bar>" by linarith
  also have "\<dots> \<le> \<bar>x\<bar> + \<bar>x\<bar> / 2 ^ 53" using to_double_error [of x] by linarith
  finally show ?thesis by (simp add: algebra_simps)
qed

lemma rebound_shrinks: "\<bar>mul64 v REBOUND64\<bar> \<le> \<bar>v\<bar>"
proof -
  have r: "\<bar>REBOUND64\<bar> \<le> (3 / 5) * (1 + 1 / 2 ^ 53)"
    using to_double_abs_le [of "3 / 5"] by (simp add: REBOUND64_def)
  have "\<bar>mul64 v REBOUND64\<bar> \<le> \<bar>v * REBOUND64\<bar> * (1 + 1 / 2 ^ 53)"
    unfolding mul64_def by (rule to_double_abs_le)
  also have "\<dots> = \<bar>v\<bar> * (\<bar>REBOUND64\<bar> * (1 + 1 / 2 ^ 53))"
    by (simp add: abs_mult)
  also have "\<dots> \<le> \<bar>v\<bar> * ((3 / 5) * (1 + 1 / 2 ^ 53) * (1 + 1 / 2 ^ 53))"
    using r by (intro mult_left_mono mult_right_mono) simp_all
  also have "\<dots> \<le> \<bar>v\<bar> * 1"
    by (intro mult_left_mono) simp_all
  finally show ?thesis by simp
qed

lemma bounce64_shrinks:
  "\<bar>ball_vx (bounce64 b)\<bar> \<le> \<bar>ball_vx b\<bar> \<and> \<bar>ball_vy (bounce64 b)\<bar> \<le> \<bar>ball_vy b\<bar>"
proof -
  have twice: "\<bar>mul64 (mul64 v REBOUND64) REBOUND64\<bar> \<le> \<bar>v\<bar>" for v
    using rebound_shrinks [of "mul64 v REBOUND64"] rebound_shrinks [of v] by linarith
  have x: "ball_vx (bounce64 b) = ball_vx b \<or> ball_vx (bounce64 b) = mul64 (ball_vx b) REBOUND64 \<or>
           ball_vx (bounce64 b) = mul64 (mul64 (ball_vx b) REBOUND64) REBOUND64"
    by (simp add: bounce64_def Let_def)
  have y: "ball_vy (bounce64 b) = ball_vy b \<or> ball_vy (bounce64 b) = mul64 (ball_vy b) REBOUND64 \<or>
           ball_vy (bounce64 b) = mul64 (mul64 (ball_vy b) REBOUND64) REBOUND64"
    by (simp add: bounce64_def Let_def)
  show ?thesis
    using x y rebound_shrinks [of "ball_vx b"] rebound_shrinks [of "ball_vy b"]
      twice [of "ball_vx b"] twice [of "ball_vy b"]
    by auto
qed

lemma hypot_mono: "\<bar>a\<bar> \<le> \<bar>c\<bar> \<Longrightarrow> \<bar>b\<bar> \<le> \<bar>d\<bar> \<Longrightarrow> hypot a b \<le> hypot c d"
proof -
  assume "\<bar>a\<bar> \<le> \<bar>c\<bar>" "\<bar>b\<bar> \<le> \<bar>d\<bar>"
  then have "a * a \<le> c * c" "b * b \<le> d * d"
    by (metis abs_mult_self_eq abs_ge_zero mult_mono)+
  then show ?thesis by (simp add: hypot_def add_mono)
qed

lemma hypot_scale: "hypot (k * a) (k * b) = \<bar>k\<bar> * hypot a b"
proof -
  have "(k * a) * (k * a) + (k * b) * (k * b) = (k * k) * (a * a + b * b)"
    by (simp add: algebra_simps)
  then show ?thesis
    by (simp add: hypot_def real_sqrt_mult)
qed

lemma rescale_error:
  fixes v s n :: real
  assumes "0 < n" "\<bar>s - n\<bar> \<le> n / 2 ^ 50"
  shows "\<bar>mul64 (div64 v s) 6 - 6 * (v / n)\<bar> \<le> 6 * (\<bar>v\<bar> / n) / 2 ^ 49"
proof -
  define q where "q = v / s"
  define a1 where "a1 = to_double q"
  define a2 where "a2 = to_double (a1 * 6)"
  have "n - s \<le> n / 2 ^ 50" using assms(2) by linarith
  then have "n - n / 2 ^ 50 \<le> s" by linarith
  then have s_lo: "n * (1 - 1 / 2 ^ 50) \<le> s" by (simp add: algebra_simps)
  then have s_pos: "0 < s"
  proof -
    have "0 < n * (1 - 1 / 2 ^ 50)" using assms(1) by simp
    with s_lo show ?thesis by linarith
  qed
  have e1: "\<bar>a1 - q\<bar> \<le> \<bar>q\<bar> / 2 ^ 53"
    unfolding a1_def by (rule to_double_error)
  have a1_le: "\<bar>a1\<bar> \<le> \<bar>q\<bar> * (1 + 1 / 2 ^ 53)"
    unfolding a1_def by (rule to_double_abs_le)
  have "\<bar>a2 - a1 * 6\<bar> \<le> \<bar>a1 * 6\<bar> / 2 ^ 53"
    unfolding a2_def by (rule to_double_error)
  also have "\<dots> = 6 * \<bar>a1\<bar> / 2 ^ 53" by (simp add: abs_mult)
  also have "\<dots> \<le> 6 * (\<bar>q\<bar> * (1 + 1 / 2 ^ 53)) / 2 ^ 53"
    using a1_le by (intro divide_right_mono mult_left_mono) simp_all
  finally have e2: "\<bar>a2 - a1 * 6\<bar> \<le> 6 * (\<bar>q\<bar> * (1 + 1 / 2 ^ 53)) / 2 ^ 53" .
  have split: "q - v / n = q * (1 - s / n)"
    using s_pos assms(1) by (simp add: q_def field_simps)
  have dev: "\<bar>1 - s / n\<bar> \<le> 1 / 2 ^ 50"
  proof -
    have "1 - s / n = (n - s) / n" using assms(1) by (simp add: field_simps)
    then have "\<bar>1 - s / n\<bar> = \<bar>s - n\<bar> / n" using assms(1) by (simp add: abs_minus_commute)
    also have "\<dots> \<le> (n / 2 ^ 50) / n" using assms by (intro divide_right_mono) simp_all
    finally show ?thesis using assms(1) by simp
  qed
  have "\<bar>q - v / n\<bar> = \<bar>q\<bar> * \<bar>1 - s / n\<bar>"
    unfolding split by (rule abs_mult)
  also have "\<dots> \<le> \<bar>q\<bar> * (1 / 2 ^ 50)"
    using dev by (rule mult_left_mono) simp
  finally have e3: "\<bar>q - v / n\<bar> \<le> \<bar>q\<bar> * (1 / 2 ^ 50)" .
  have tri: "\<bar>x1 + 6 * x2 + 6 * x3\<bar> \<le> \<bar>x1\<bar> + 6 * \<bar>x2\<bar> + 6 * \<bar>x3\<bar>" for x1 x2 x3 :: real
    by linarith
  have "a2 - 6 * (v / n) = (a2 - a1 * 6) + 6 * (a1 - q) + 6 * (q - v / n)"
    by simp
  then have "\<bar>a2 - 6 * (v / n)\<bar> \<le> \<bar>a2 - a1 * 6\<bar> + 6 * \<bar>a1 - q\<bar> + 6 * \<bar>q - v / n\<bar>"
    using tri [of "a2 - a1 * 6" "a1 - q" "q - v / n"] by simp
  also have "\<dots> \<le> 6 * (\<bar>q\<bar> * (1 + 1 / 2 ^ 53)) / 2 ^ 53 + 6 * (\<bar>q\<bar> / 2 ^ 53) + 6 * (\<bar>q\<bar> * (1 / 2 ^ 50))"
    using e1 e2 e3 by linarith
  also have "\<dots> = 6 * \<bar>q\<bar> * ((1 + 1 / 2 ^ 53) / 2 ^ 53 + 1 / 2 ^ 53 + 1 / 2 ^ 50)"
    by (simp add: algebra_simps)
  finally have total: "\<bar>a2 - 6 * (v / n)\<bar>
      \<le> 6 * \<bar>q\<bar> * ((1 + 1 / 2 ^ 53) / 2 ^ 53 + 1 / 2 ^ 53 + 1 / 2 ^ 50)" .
  have "\<bar>q\<bar> = \<bar>v\<bar> / s" using s_pos by (simp add: q_def)
  also have "\<dots> \<le> \<bar>v\<bar> / (n * (1 - 1 / 2 ^ 50))"
    using s_lo assms(1) by (intro divide_left_mono) simp_all
  also have "\<dots> = (\<bar>v\<bar> / n) * (1 / (1 - 1 / 2 ^ 50))" by simp
  finally have q_le: "\<bar>q\<bar> \<le> (\<bar>v\<bar> / n) * (1 / (1 - 1 / 2 ^ 50))" .
  have num: "(1 / (1 - 1 / 2 ^ 50)) * ((1 + 1 / 2 ^ 53) / 2 ^ 53 + 1 / 2 ^ 53 + 1 / 2 ^ 50)
             \<le> (1 / 2 ^ 49 :: real)"
    by simp
  have r: "0 \<le> \<bar>v\<bar> / n" using assms(1) by simp
  have "6 * \<bar>q\<bar> * ((1 + 1 / 2 ^ 53) / 2 ^ 53 + 1 / 2 ^ 53 + 1 / 2 ^ 50)
        \<le> 6 * ((\<bar>v\<bar> / n) * (1 / (1 - 1 / 2 ^ 50))) * ((1 + 1 / 2 ^ 53) / 2 ^ 53 + 1 / 2 ^ 53 + 1 / 2 ^ 50)"
    using q_le by (intro mult_right_mono mult_left_mono) simp_all
  also have "\<dots> = 6 * (\<bar>v\<bar> / n) *
        ((1 / (1 - 1 / 2 ^ 50)) * ((1 + 1 / 2 ^ 53) / 2 ^ 53 + 1 / 2 ^ 53 + 1 / 2 ^ 50))"
    by (simp only: mult.assoc)
  also have "\<dots> \<le> 6 * (\<bar>v\<bar> / n) * (1 / 2 ^ 49)"
    using num r by (intro mult_left_mono) simp_all
  finally show ?thesis
    using total unfolding a2_def a1_def q_def mul64_def div64_def by simp
qed

lemma hypot64_accurate: "hypot_accuracy hypot64"
proof -
  have "\<bar>to_double (hypot a b) - hypot a b\<bar> \<le> hypot a b / 2 ^ 50" for a b
  proof -
    have h: "0 \<le> hypot a b" by (rule hypot_nonneg)
    have "\<bar>to_double (hypot a b) - hypot a b\<bar> \<le> \<bar>hypot a b\<bar> / 2 ^ 53"
      by (rule to_double_error)
    also have "\<dots> = hypot a b / 2 ^ 53" using h by simp
    also have "\<dots> \<le> hypot a b / 2 ^ 50"
      using h by (intro divide_left_mono) simp_all
    finally show ?thesis .
  qed
  then show ?thesis by (simp add: hypot_accuracy_def hypot64_def)
qed

lemma abs_le_norm: "hypot a b \<noteq> 0 \<Longrightarrow> \<bar>a\<bar> / hypot a b \<le> 1" "hypot a b \<noteq> 0 \<Longrightarrow> \<bar>b\<bar> / hypot a b \<le> 1"
  using abs_le_hypot(1) [of a b] abs_le_hypot(2) [of b a] hypot_nonneg [of a b]
  by (simp_all add: divide_le_eq)

lemma clamp_speed64_direction:
  assumes "hypot_accuracy hyp" "MAX_SPEED < hyp (ball_vx q) (ball_vy q)"
  shows "\<bar>ball_vx (clamp_speed64 hyp q) - MAX_SPEED * (ball_vx q / hypot (ball_vx q) (ball_vy q))\<bar>
           \<le> MAX_SPEED * (\<bar>ball_vx q\<bar> / hypot (ball_vx q) (ball_vy q)) / 2 ^ 49"
    and "\<bar>ball_vy (clamp_speed64 hyp q) - MAX_SPEED * (ball_vy q / hypot (ball_vx q) (ball_vy q))\<bar>
           \<le> MAX_SPEED * (\<bar>ball_vy q\<bar> / hypot (ball_vx q) (ball_vy q)) / 2 ^ 49"
    and "0 < hypot (ball_vx q) (ball_vy q)"
proof -
  define n where "n = hypot (ball_vx q) (ball_vy q)"
  define s where "s = hyp (ball_vx q) (ball_vy q)"
  have acc: "\<bar>s - n\<bar> \<le> n / 2 ^ 50"
    using assms(1) by (simp add: hypot_accuracy_def s_def n_def)
  have n0: "0 \<le> n" unfolding n_def by (rule hypot_nonneg)
  have "n \<noteq> 0"
  proof
    assume "n = 0"
    with acc have "s = 0" by simp
    with assms(2) show False by (simp add: s_def MAX_SPEED_def)
  qed
  with n0 have n: "0 < n" by simp
  then show "0 < hypot (ball_vx q) (ball_vy q)" by (simp add: n_def)
  have c: "clamp_speed64 hyp q =
      q\<lparr> ball_vx := mul64 (div64 (ball_vx q) s) 6, ball_vy := mul64 (div64 (ball_vy q) s) 6 \<rparr>"
    using assms(2) by (simp add: clamp_speed64_def Let_def s_def MAX_SPEED_def)
  show "\<bar>ball_vx (clamp_speed64 hyp q) - MAX_SPEED * (ball_vx q / hypot (ball_vx q) (ball_vy q))\<bar>
           \<le> MAX_SPEED * (\<bar>ball_vx q\<bar> / hypot (ball_vx q) (ball_vy q)) / 2 ^ 49"
    using rescale_error [OF n acc, of "ball_vx q"] by (simp add: c MAX_SPEED_def n_def)
  show "\<bar>ball_vy (clamp_speed64 hyp q) - MAX_SPEED * (ball_vy q / hypot (ball_vx q) (ball_vy q))\<bar>
           \<le> MAX_SPEED * (\<bar>ball_vy q\<bar> / hypot (ball_vx q) (ball_vy q)) / 2 ^ 49"
    using rescale_error [OF n acc, of "ball_vy q"] by (simp add: c MAX_SPEED_def n_def)
qed

lemma clamp_speed64_bound:
  assumes "hypot_accuracy hyp"
  shows "hypot (ball_vx (clamp_speed64 hyp q)) (ball_vy (clamp_speed64 hyp q))
           \<le> MAX_SPEED * (1 + 1 / 2 ^ 49)"
proof (cases "MAX_SPEED < hyp (ball_vx q) (ball_vy q)")
  case True
  define n where "n = hypot (ball_vx q) (ball_vy q)"
  define k where "k = 6 * (1 + 1 / 2 ^ 49) / n"
  note d = clamp_speed64_direction [OF assms True, folded n_def, unfolded MAX_SPEED_def]
  have n: "0 < n" by (rule d(3))
  have k: "0 \<le> k" using n by (simp add: k_def)
  have comp: "\<bar>a - 6 * (v / n)\<bar> \<le> 6 * (\<bar>v\<bar> / n) / 2 ^ 49 \<Longrightarrow> \<bar>a\<bar> \<le> \<bar>k * v\<bar>" for a v
  proof -
    assume a: "\<bar>a - 6 * (v / n)\<bar> \<le> 6 * (\<bar>v\<bar> / n) / 2 ^ 49"
    have "\<bar>6 * (v / n)\<bar> = 6 * (\<bar>v\<bar> / n)" using n by (simp add: abs_mult)
    then have "\<bar>a\<bar> \<le> 6 * (\<bar>v\<bar> / n) + 6 * (\<bar>v\<bar> / n) / 2 ^ 49" using a by linarith
    also have "\<dots> = k * \<bar>v\<bar>" by (simp add: k_def algebra_simps add_divide_distrib)
    also have "\<dots> = \<bar>k * v\<bar>" using k by (simp add: abs_mult)
    finally show ?thesis .
  qed
  have "hypot (ball_vx (clamp_speed64 hyp q)) (ball_vy (clamp_speed64 hyp q))
        \<le> hypot (k * ball_vx q) (k * ball_vy q)"
    by (intro hypot_mono comp d(1) d(2))
  also have "\<dots> = k * n" using k by (simp add: hypot_scale n_def)
  also have "\<dots> = 6 * (1 + 1 / 2 ^ 49)" using n by (simp add: k_def)
  finally show ?thesis by (simp add: MAX_SPEED_def)
next
  case False
  define n where "n = hypot (ball_vx q) (ball_vy q)"
  define s where "s = hyp (ball_vx q) (ball_vy q)"
  have acc: "\<bar>s - n\<bar> \<le> n / 2 ^ 50"
    using assms(1) by (simp add: hypot_accuracy_def s_def n_def)
  have s6: "s \<le> 6" using False by (simp add: s_def MAX_SPEED_def)
  have "n - n / 2 ^ 50 \<le> s" using acc by linarith
  then have "n * (1 - 1 / 2 ^ 50) \<le> 6" using s6 by (simp add: algebra_simps)
  then have "n \<le> 6 / (1 - 1 / 2 ^ 50)" by (simp add: pos_le_divide_eq)
  also have "\<dots> \<le> 6 * (1 + 1 / 2 ^ 49)" by simp
  finally have "n \<le> 6 * (1 + 1 / 2 ^ 49)" .
  moreover have "clamp_speed64 hyp q = q"
    using False by (simp add: clamp_speed64_def Let_def)
  ultimately show ?thesis by (simp add: n_def MAX_SPEED_def)
qed

lemma integrator64_bound:
  assumes "hypot_accuracy hyp" "b \<in> set (animate_balls64 hyp cursor won balls)"
  shows "hypot (ball_vx b) (ball_vy b) \<le> MAX_SPEED * (1 + 1 / 2 ^ 49)"
proof -
  from animate_balls64_last_turn [OF assms(2)]
  obtain q where b: "b = bounce64 (clamp_speed64 hyp (integrate64 q))" by blast
  let ?c = "clamp_speed64 hyp (integrate64 q)"
  have "hypot (ball_vx b) (ball_vy b) \<le> hypot (ball_vx ?c) (ball_vy ?c)"
    unfolding b using bounce64_shrinks [of ?c] by (intro hypot_mono) simp_all
  also have "\<dots> \<le> MAX_SPEED * (1 + 1 / 2 ^ 49)"
    by (rule clamp_speed64_bound [OF assms(1)])
  finally show ?thesis .
qed

text \<open>
  Claim C6, amended. In double precision the rescale of the clamp rounds, and the bound
  holds up to that rounding. With a \<^verbatim>\<open>Math.hypot\<close> accurate to a relative error of
  \<open>2\<^sup>-\<^sup>5\<^sup>0\<close>, after one pass of the integrator every ball's speed is at most
  \<open>MAX_SPEED * (1 + 2\<^sup>-\<^sup>4\<^sup>9)\<close>, for every batch, cursor and won flag; and the clamp
  takes each component of a faster velocity to within \<open>MAX_SPEED / 2\<^sup>4\<^sup>9\<close> of that
  component of the vector of length \<open>MAX_SPEED = 6\<close> in the same direction. The reflection
  that follows scales a component by the double nearest \<open>-0.6\<close> and cannot raise the speed.
\<close>

theorem speed_bound_rounded:
  assumes "hypot_accuracy hyp"
  shows
  "(\<forall>b \<in> set (animate_balls64 hyp cursor won balls).
      hypot (ball_vx b) (ball_vy b) \<le> MAX_SPEED * (1 + 1 / 2 ^ 49)) \<and>
   (MAX_SPEED < hyp (ball_vx q) (ball_vy q) \<longrightarrow>
      \<bar>ball_vx (clamp_speed64 hyp q) - MAX_SPEED * (ball_vx q / hypot (ball_vx q) (ball_vy q))\<bar>
        \<le> MAX_SPEED / 2 ^ 49 \<and>
      \<bar>ball_vy (clamp_speed64 hyp q) - MAX_SPEED * (ball_vy q / hypot (ball_vx q) (ball_vy q))\<bar>
        \<le> MAX_SPEED / 2 ^ 49) \<and>
   MAX_SPEED = 6"
proof (intro conjI impI ballI)
  fix b assume "b \<in> set (animate_balls64 hyp cursor won balls)"
  then show "hypot (ball_vx b) (ball_vy b) \<le> MAX_SPEED * (1 + 1 / 2 ^ 49)"
    by (rule integrator64_bound [OF assms])
next
  assume f: "MAX_SPEED < hyp (ball_vx q) (ball_vy q)"
  note d = clamp_speed64_direction [OF assms f]
  have nz: "hypot (ball_vx q) (ball_vy q) \<noteq> 0" using d(3) by simp
  have m: "0 \<le> MAX_SPEED" by (simp add: MAX_SPEED_def)
  have le: "MAX_SPEED * r / 2 ^ 49 \<le> MAX_SPEED / 2 ^ 49" if "r \<le> 1" for r
    using that m by (intro divide_right_mono) (simp_all add: mult_left_le)
  show "\<bar>ball_vx (clamp_speed64 hyp q) - MAX_SPEED * (ball_vx q / hypot (ball_vx q) (ball_vy q))\<bar>
        \<le> MAX_SPEED / 2 ^ 49"
    using d(1) le [OF abs_le_norm(1) [OF nz]] by linarith
  show "\<bar>ball_vy (clamp_speed64 hyp q) - MAX_SPEED * (ball_vy q / hypot (ball_vx q) (ball_vy q))\<bar>
        \<le> MAX_SPEED / 2 ^ 49"
    using d(2) le [OF abs_le_norm(2) [OF nz]] by linarith
qed (simp add: MAX_SPEED_def)

lemma hypot_gt_iff: "0 \<le> r \<Longrightarrow> r < hypot a b \<longleftrightarrow> r * r < a * a + b * b"
  using hypot_le_iff [of r a b] by (simp add: not_le [symmetric])

lemma to_double_sqrt_eval:
  assumes "0 \<le> q" "2 ^ 52 * 2 ^ 52 \<le> q * 4 ^ j" "q * 4 ^ j < 2 ^ 53 * 2 ^ 53"
    and "1 / 2 \<le> (of_int m :: real)"
    and "(of_int m - 1 / 2) * (of_int m - 1 / 2) < q * 4 ^ j"
    and "q * 4 ^ j < (of_int m + 1 / 2) * (of_int m + 1 / 2)"
  shows "to_double (sqrt q) = of_int m / 2 ^ j"
proof -
  define y where "y = sqrt q * 2 ^ j"
  have "sqrt (q * 4 ^ j) = sqrt q * sqrt (4 ^ j)" by (rule real_sqrt_mult)
  also have "sqrt (4 ^ j) = sqrt 4 ^ j" by (rule real_sqrt_power)
  also have "sqrt 4 = (2::real)" using real_sqrt_abs [of 2] by simp
  finally have y: "y = sqrt (q * 4 ^ j)" by (simp add: y_def)
  have nn: "0 \<le> q * 4 ^ j" using assms(1) by (intro mult_nonneg_nonneg) simp_all
  have y0: "0 \<le> y" unfolding y using nn by simp
  have sq: "y * y = q * 4 ^ j" unfolding y using nn by simp
  have cmp_le: "c \<le> y" if "0 \<le> c" "c * c \<le> q * 4 ^ j" for c
  proof (rule ccontr)
    assume "\<not> c \<le> y"
    then have "y < c" by simp
    then have "y * y < c * c" using y0 by (intro mult_strict_mono') simp_all
    with that(2) sq show False by simp
  qed
  have cmp_less: "c < y" if "0 \<le> c" "c * c < q * 4 ^ j" for c
  proof (rule ccontr)
    assume "\<not> c < y"
    then have "y \<le> c" by simp
    then have "y * y \<le> c * c" using y0 by (intro mult_mono) simp_all
    with that(2) sq show False by simp
  qed
  have cmp_gt: "y < c" if "0 \<le> c" "q * 4 ^ j < c * c" for c
  proof (rule ccontr)
    assume "\<not> y < c"
    then have "c \<le> y" by simp
    then have "c * c \<le> y * y" using that(1) by (intro mult_mono) simp_all
    with that(2) sq show False by simp
  qed
  have r1: "2 ^ 52 \<le> y" using assms(2) by (intro cmp_le) simp_all
  have r2: "y < 2 ^ 53" using assms(3) by (intro cmp_gt) simp_all
  have r3: "of_int m - 1 / 2 < y" using assms(4,5) by (intro cmp_less) simp_all
  have r4: "y < of_int m + 1 / 2" using assms(4,6) by (intro cmp_gt) simp_all
  have pos: "0 < sqrt q"
  proof -
    have "0 < y" using r1 by (simp add: less_le_trans [of 0 "2 ^ 52"])
    then show ?thesis using zero_less_mult_iff [of "sqrt q" "2 ^ j"] by (simp add: y_def)
  qed
  show ?thesis
    using to_double_eval [OF pos r1 [unfolded y_def] r2 [unfolded y_def]
        r3 [unfolded y_def] r4 [unfolded y_def]] .
qed

lemma friction64: "FRICTION64 = 8736983277098762 / 2 ^ 53"
  unfolding FRICTION64_def
  using to_double_eval [of "97 / 100" 53 8736983277098762] by simp

lemma integrate64_fast: "integrate64 fast_ball = fast_ball_moved"
proof -
  have x: "add64 100 6 = 106"
    unfolding add64_def using to_double_eval [of 106 46 7459086882832384] by simp
  have y: "add64 100 4 = 104"
    unfolding add64_def using to_double_eval [of 104 46 7318349394477056] by simp
  have vx: "mul64 6 (8736983277098762 / 2 ^ 53) = 6552737457824072 / 2 ^ 50"
    unfolding mul64_def
    using to_double_tie [of "6 * (8736983277098762 / 2 ^ 53)" 50 6552737457824071 6552737457824072]
    by simp
  have vy: "mul64 4 (8736983277098762 / 2 ^ 53) = 8736983277098762 / 2 ^ 51"
    unfolding mul64_def
    using to_double_eval [of "4 * (8736983277098762 / 2 ^ 53)" 51 8736983277098762]
    by simp
  show ?thesis
    unfolding integrate64_def fast_ball_def fast_ball_moved_def friction64
    using x y vx vy by simp
qed

lemma speed64_fast:
  "hypot64 (6552737457824072 / 2 ^ 50) (8736983277098762 / 2 ^ 51) = 7875410299612747 / 2 ^ 50"
  unfolding hypot64_def hypot_def
  using to_double_sqrt_eval
    [of "(6552737457824072 / 2 ^ 50) * (6552737457824072 / 2 ^ 50) +
         (8736983277098762 / 2 ^ 51) * (8736983277098762 / 2 ^ 51)" 50 7875410299612747]
  by simp

lemma clamp_speed64_fast: "clamp_speed64 hypot64 fast_ball_moved = fast_ball_clamped"
proof -
  have dx: "div64 (6552737457824072 / 2 ^ 50) (7875410299612747 / 2 ^ 50) = 7494442791066849 / 2 ^ 53"
    unfolding div64_def
    using to_double_eval [of "(6552737457824072 / 2 ^ 50) / (7875410299612747 / 2 ^ 50)" 53 7494442791066849]
    by simp
  have dy: "div64 (8736983277098762 / 2 ^ 51) (7875410299612747 / 2 ^ 50) = 4996295194044566 / 2 ^ 53"
    unfolding div64_def
    using to_double_eval [of "(8736983277098762 / 2 ^ 51) / (7875410299612747 / 2 ^ 50)" 53 4996295194044566]
    by simp
  have mx: "mul64 (7494442791066849 / 2 ^ 53) 6 = 5620832093300137 / 2 ^ 50"
    unfolding mul64_def
    using to_double_eval [of "(7494442791066849 / 2 ^ 53) * 6" 50 5620832093300137]
    by simp
  have my: "mul64 (4996295194044566 / 2 ^ 53) 6 = 7494442791066849 / 2 ^ 51"
    unfolding mul64_def
    using to_double_eval [of "(4996295194044566 / 2 ^ 53) * 6" 51 7494442791066849]
    by simp
  have fast: "(6::real) < 7875410299612747 / 2 ^ 50" by simp
  show ?thesis
    unfolding clamp_speed64_def fast_ball_moved_def fast_ball_clamped_def MAX_SPEED_def Let_def
    using fast by (simp only: Ball.simps speed64_fast if_True dx dy mx my)
qed

lemma bounce64_fast: "bounce64 fast_ball_clamped = fast_ball_clamped"
proof -
  have w: "sub64 600 20 = 580"
    unfolding sub64_def using to_double_eval [of 580 43 5101733952880640] by simp
  have h: "sub64 500 20 = 480"
    unfolding sub64_def using to_double_eval [of 480 44 8444249301319680] by simp
  show ?thesis
    by (simp add: bounce64_def fast_ball_clamped_def FIELD_WIDTH_def FIELD_HEIGHT_def BALL_SIZE_def w h)
qed

lemma animate_balls64_single:
  "animate_balls64 hyp cursor won [b] =
     [bounce64 (clamp_speed64 hyp (integrate64 (cursor_force64 hyp cursor won b)))]"
  by (simp add: animate_balls64_def step_ball64_def)

lemma animate_balls64_fast: "animate_balls64 hypot64 None False [fast_ball] = [fast_ball_clamped]"
  by (simp add: animate_balls64_single cursor_force64_def integrate64_fast clamp_speed64_fast
      bounce64_fast)

text \<open>
  Claim C6 as stated bounds the speed by \<open>MAX_SPEED\<close> itself. A ball with velocity
  \<open>(6, 4)\<close> and no cursor ends the pass, with a correctly rounded \<^verbatim>\<open>Math.hypot\<close>, with
  velocity \<open>(4.9923017660270625, 3.328201177351375)\<close>, and the length of that vector is
  above 6.
\<close>

theorem speed_exceeds_max:
  "animate_balls64 hypot64 None False
     [\<lparr>ball_x = 100, ball_y = 100, ball_vx = 6, ball_vy = 4, ball_color = Some ''red''\<rparr>] =
     [\<lparr>ball_x = 106, ball_y = 104, ball_vx = 5620832093300137 / 2 ^ 50,
       ball_vy = 7494442791066849 / 2 ^ 51, ball_color = Some ''red''\<rparr>] \<and>
   MAX_SPEED < hypot (5620832093300137 / 2 ^ 50) (7494442791066849 / 2 ^ 51)"
proof -
  have "MAX_SPEED < hypot (5620832093300137 / 2 ^ 50) (7494442791066849 / 2 ^ 51)"
    by (simp add: MAX_SPEED_def hypot_gt_iff)
  then show ?thesis
    using animate_balls64_fast by (simp add: fast_ball_def fast_ball_clamped_def)
qed

theorem speed_bound_rounded_witness:
  "hypot_accuracy hypot64 \<and>
   animate_balls64 hypot64 None False [fast_ball] = [fast_ball_clamped] \<and>
   hypot (ball_vx fast_ball_clamped) (ball_vy fast_ball_clamped) \<le> MAX_SPEED * (1 + 1 / 2 ^ 49) \<and>
   MAX_SPEED < hypot64 (ball_vx fast_ball_moved) (ball_vy fast_ball_moved) \<and>
   \<bar>ball_vx (clamp_speed64 hypot64 fast_ball_moved)
      - MAX_SPEED * (ball_vx fast_ball_moved / hypot (ball_vx fast_ball_moved) (ball_vy fast_ball_moved))\<bar>
     \<le> MAX_SPEED / 2 ^ 49"
proof -
  note t = speed_bound_rounded [OF hypot64_accurate, of None False "[fast_ball]" fast_ball_moved]
  have "fast_ball_clamped \<in> set (animate_balls64 hypot64 None False [fast_ball])"
    by (simp add: animate_balls64_fast)
  with t have b: "hypot (ball_vx fast_ball_clamped) (ball_vy fast_ball_clamped)
      \<le> MAX_SPEED * (1 + 1 / 2 ^ 49)"
    by blast
  have "hypot64 (ball_vx fast_ball_moved) (ball_vy fast_ball_moved) = 7875410299612747 / 2 ^ 50"
    unfolding fast_ball_moved_def by (simp only: Ball.simps speed64_fast)
  then have f: "MAX_SPEED < hypot64 (ball_vx fast_ball_moved) (ball_vy fast_ball_moved)"
    by (simp add: MAX_SPEED_def)
  with t have "\<bar>ball_vx (clamp_speed64 hypot64 fast_ball_moved)
      - MAX_SPEED * (ball_vx fast_ball_moved / hypot (ball_vx fast_ball_moved) (ball_vy fast_ball_moved))\<bar>
     \<le> MAX_SPEED / 2 ^ 49"
    by blast
  with b f hypot64_accurate animate_balls64_fast show ?thesis by blast
qed

section \<open>Connectivity\<close>

lemma traverse_invariant:
  assumes "set queue \<subseteq> set cb"
    and "\<forall>v \<in> visited. \<forall>w. (v, w) \<in> adjacent balls cb \<longrightarrow> w \<in> visited \<union> set queue"
  shows "visited \<union> set queue \<subseteq> traverse balls cb visited queue \<and>
         traverse balls cb visited queue \<subseteq> visited \<union> (adjacent balls cb)\<^sup>* `` set queue \<and>
         (\<forall>v \<in> traverse balls cb visited queue. \<forall>w.
            (v, w) \<in> adjacent balls cb \<longrightarrow> w \<in> traverse balls cb visited queue)"
  using assms
proof (induction balls cb visited queue rule: traverse.induct)
  case (1 balls cb visited queue)
  show ?case
  proof (cases "queue = []")
    case True
    with "1.prems" show ?thesis by (simp add: traverse.simps)
  next
    case False
    define cur where "cur = last queue"
    define v1 where "v1 = insert cur visited"
    define pushed where "pushed = filter (\<lambda>other. other \<notin> v1 \<and> near balls cur other) cb"
    define q1 where "q1 = butlast queue @ pushed"
    let ?E = "adjacent balls cb"
    have step: "traverse balls cb visited queue = traverse balls cb v1 q1"
      using False by (subst traverse.simps) (simp add: Let_def cur_def v1_def pushed_def q1_def)
    have q: "set queue = insert cur (set (butlast queue))"
      using False by (metis cur_def append_butlast_last_id list.simps(15) rotate1.simps(2) set_rotate1)
    have cur_cb: "cur \<in> set cb" using q "1.prems"(1) by auto
    have pushed_edge: "set pushed = {w. (cur, w) \<in> ?E \<and> w \<notin> v1}"
      using cur_cb by (auto simp: pushed_def adjacent_def near_def)
    have p1: "set q1 \<subseteq> set cb"
      using "1.prems"(1) q by (auto simp: q1_def pushed_def)
    have p2: "\<forall>v \<in> v1. \<forall>w. (v, w) \<in> ?E \<longrightarrow> w \<in> v1 \<union> set q1"
    proof (intro ballI allI impI)
      fix v w assume v: "v \<in> v1" and e: "(v, w) \<in> ?E"
      show "w \<in> v1 \<union> set q1"
      proof (cases "v = cur")
        case True
        with e pushed_edge show ?thesis by (auto simp: q1_def)
      next
        case False
        with v have "v \<in> visited" by (simp add: v1_def)
        with "1.prems"(2) e have "w \<in> visited \<union> set queue" by blast
        then show ?thesis using q by (auto simp: v1_def q1_def)
      qed
    qed
    note IH = "1.IH" [OF False cur_def v1_def pushed_def, folded q1_def, OF p1 p2]
    have a: "visited \<union> set queue \<subseteq> v1 \<union> set q1"
      using q by (auto simp: v1_def q1_def)
    have sub: "set q1 \<subseteq> set queue \<union> ?E `` {cur}"
      using q pushed_edge by (auto simp: q1_def)
    have "?E\<^sup>* `` set q1 \<subseteq> ?E\<^sup>* `` set queue"
    proof
      fix x assume "x \<in> ?E\<^sup>* `` set q1"
      then obtain y where y: "y \<in> set q1" "(y, x) \<in> ?E\<^sup>*" by auto
      show "x \<in> ?E\<^sup>* `` set queue"
      proof (cases "y \<in> set queue")
        case True
        with y show ?thesis by auto
      next
        case False
        with sub y(1) have "(cur, y) \<in> ?E" by auto
        from this y(2) have "(cur, x) \<in> ?E\<^sup>*" by (rule converse_rtrancl_into_rtrancl)
        moreover have "cur \<in> set queue" using q by simp
        ultimately show ?thesis by auto
      qed
    qed
    moreover have "cur \<in> ?E\<^sup>* `` set queue" using q by auto
    ultimately have b: "v1 \<union> ?E\<^sup>* `` set q1 \<subseteq> visited \<union> ?E\<^sup>* `` set queue"
      by (auto simp: v1_def)
    show ?thesis unfolding step using IH a b by blast
  qed
qed

lemma traverse_from_seed:
  assumes "seed \<in> set cb"
  shows "traverse balls cb {} [seed] = reachable_from balls cb seed"
proof -
  let ?R = "traverse balls cb {} [seed]"
  let ?E = "adjacent balls cb"
  have inv: "{} \<union> set [seed] \<subseteq> ?R \<and> ?R \<subseteq> {} \<union> ?E\<^sup>* `` set [seed] \<and>
             (\<forall>v \<in> ?R. \<forall>w. (v, w) \<in> ?E \<longrightarrow> w \<in> ?R)"
    by (rule traverse_invariant) (use assms in simp_all)
  then have seed: "seed \<in> ?R" and sound: "?R \<subseteq> ?E\<^sup>* `` {seed}"
    and closed: "\<And>v w. v \<in> ?R \<Longrightarrow> (v, w) \<in> ?E \<Longrightarrow> w \<in> ?R"
    by auto
  have "j \<in> ?R" if "(seed, j) \<in> ?E\<^sup>*" for j
    using that by (induction rule: rtrancl_induct) (auto intro: seed closed)
  with sound show ?thesis
    by (auto simp: reachable_from_def)
qed

lemma cluster_reachable:
  "cb \<noteq> [] \<Longrightarrow> cluster balls cb = reachable_from balls cb (hd cb)"
  by (cases cb) (simp_all add: cluster_def seed_queue_def traverse_from_seed)

lemma reachable_in_group:
  "seed \<in> set grp \<Longrightarrow> reachable_from balls grp seed \<subseteq> set grp"
proof
  fix j assume s: "seed \<in> set grp" and "j \<in> reachable_from balls grp seed"
  then have "(seed, j) \<in> (adjacent balls grp)\<^sup>*" by (simp add: reachable_from_def)
  then show "j \<in> set grp"
    using s by (induction rule: rtrancl_induct) (auto simp: adjacent_def)
qed

lemma map_of_push_group:
  "map_of (push_group c i gs) =
     (map_of gs)(c \<mapsto> (case map_of gs c of None \<Rightarrow> [i] | Some g \<Rightarrow> g @ [i]))"
proof (induction gs)
  case Nil
  show ?case by (simp add: fun_eq_iff)
next
  case (Cons kg gs)
  obtain k g where kg: "kg = (k, g)" by (cases kg)
  show ?case
    unfolding kg using Cons.IH by (cases "k = c") (simp_all add: fun_eq_iff)
qed

lemma keys_push_group: "fst ` set (push_group c i gs) = insert c (fst ` set gs)"
proof (induction gs)
  case Nil
  show ?case by simp
next
  case (Cons kg gs)
  obtain k g where kg: "kg = (k, g)" by (cases kg)
  show ?case
    unfolding kg by (cases "k = c") (simp_all add: Cons.IH insert_commute)
qed

lemma distinct_push_group:
  "distinct (map fst gs) \<Longrightarrow> distinct (map fst (push_group c i gs))"
proof (induction gs)
  case Nil
  show ?case by simp
next
  case (Cons kg gs)
  obtain k g where kg: "kg = (k, g)" by (cases kg)
  show ?case
  proof (cases "k = c")
    case True
    with Cons.prems show ?thesis by (simp add: kg)
  next
    case False
    have "k \<notin> fst ` set gs" using Cons.prems by (simp add: kg)
    with False have "k \<notin> fst ` set (push_group c i gs)"
      unfolding keys_push_group by simp
    moreover have "distinct (map fst (push_group c i gs))"
      using Cons by (simp add: kg)
    ultimately show ?thesis using False by (simp add: kg)
  qed
qed

lemma group_prefix:
  "k \<le> length balls \<Longrightarrow>
   distinct (map fst (foldl (\<lambda>groups i. push_group (ball_color (balls ! i)) i groups) [] [0..<k])) \<and>
   (\<forall>c. map_of (foldl (\<lambda>groups i. push_group (ball_color (balls ! i)) i groups) [] [0..<k]) c =
        (if \<exists>i < k. ball_color (balls ! i) = c
         then Some (filter (\<lambda>i. ball_color (balls ! i) = c) [0..<k]) else None))"
proof (induction k)
  case 0
  then show ?case by simp
next
  case (Suc k)
  let ?G = "foldl (\<lambda>groups i. push_group (ball_color (balls ! i)) i groups) [] [0..<k]"
  have G: "foldl (\<lambda>groups i. push_group (ball_color (balls ! i)) i groups) [] [0..<Suc k]
           = push_group (ball_color (balls ! k)) k ?G"
    by simp
  from Suc have d: "distinct (map fst ?G)"
    and m: "\<And>c. map_of ?G c =
        (if \<exists>i < k. ball_color (balls ! i) = c
         then Some (filter (\<lambda>i. ball_color (balls ! i) = c) [0..<k]) else None)"
    by simp_all
  have none: "filter (\<lambda>i. ball_color (balls ! i) = c) [0..<k] = []"
    if "\<not> (\<exists>i < k. ball_color (balls ! i) = c)" for c
    using that by (auto simp: filter_empty_conv)
  show ?case
    unfolding G
  proof (intro conjI allI)
    show "distinct (map fst (push_group (ball_color (balls ! k)) k ?G))"
      using d by (rule distinct_push_group)
  next
    fix c
    show "map_of (push_group (ball_color (balls ! k)) k ?G) c =
        (if \<exists>i < Suc k. ball_color (balls ! i) = c
         then Some (filter (\<lambda>i. ball_color (balls ! i) = c) [0..<Suc k]) else None)"
    proof (cases "ball_color (balls ! k) = c")
      case True
      then show ?thesis
        using none [of c] by (auto simp: map_of_push_group m)
    next
      case False
      then show ?thesis
        by (auto simp: map_of_push_group m less_Suc_eq)
    qed
  qed
qed

lemma color_present_iff:
  "(\<exists>i < length balls. ball_color (balls ! i) = c) \<longleftrightarrow> c \<in> ball_color ` set balls"
proof
  assume "\<exists>i < length balls. ball_color (balls ! i) = c"
  then obtain i where "i < length balls" "ball_color (balls ! i) = c" by blast
  then show "c \<in> ball_color ` set balls" using nth_mem [of i balls] by (metis imageI)
next
  assume "c \<in> ball_color ` set balls"
  then obtain b where "b \<in> set balls" "c = ball_color b" by blast
  then show "\<exists>i < length balls. ball_color (balls ! i) = c"
    by (metis in_set_conv_nth)
qed

lemma set_group_balls:
  "set (group_balls balls) = (\<lambda>c. (c, members balls c)) ` ball_color ` set balls"
proof -
  have d: "distinct (map fst (group_balls balls))"
    and m: "\<And>c. map_of (group_balls balls) c =
        (if \<exists>i < length balls. ball_color (balls ! i) = c then Some (members balls c) else None)"
    using group_prefix [of "length balls" balls] by (simp_all add: group_balls_def members_def)
  have col: "(\<exists>i < length balls. ball_color (balls ! i) = c) \<longleftrightarrow> c \<in> ball_color ` set balls" for c
    by (rule color_present_iff)
  have "(c, g) \<in> set (group_balls balls) \<longleftrightarrow> c \<in> ball_color ` set balls \<and> g = members balls c" for c g
    using map_of_eq_Some_iff [OF d, of c g] by (auto simp: m col split: if_splits)
  then show ?thesis by auto
qed

lemma members_nonempty: "c \<in> ball_color ` set balls \<Longrightarrow> members balls c \<noteq> []"
  using color_present_iff [of balls c] by (auto simp: members_def filter_empty_conv)

lemma distinct_members: "distinct (members balls c)"
  by (simp add: members_def)

lemma cluster_full_iff:
  assumes "cb \<noteq> []" "distinct cb"
  shows "card (cluster balls cb) = length cb \<longleftrightarrow> set cb \<subseteq> reachable_from balls cb (hd cb)"
proof -
  have sub: "reachable_from balls cb (hd cb) \<subseteq> set cb"
    using assms(1) by (intro reachable_in_group) simp
  have len: "length cb = card (set cb)"
    using assms(2) by (simp add: distinct_card)
  show ?thesis
    unfolding cluster_reachable [OF assms(1)] len
    using sub card_subset_eq [OF _ sub] by auto
qed

lemma center_dist_sym: "center_dist a b = center_dist b a"
proof -
  have "hypot (- x) (- y) = hypot x y" for x y by (simp add: hypot_def)
  from this [of "ball_x b - ball_x a" "ball_y b - ball_y a"] show ?thesis
    by (simp add: center_dist_corner)
qed

lemma length_positions_of: "length (positions_of balls) = length balls"
  by (simp add: positions_of_def)

lemma clash_positions:
  "i < length balls \<Longrightarrow> j < length balls \<Longrightarrow>
   clash (positions_of balls ! i) (positions_of balls ! j) \<longleftrightarrow>
     ball_color (balls ! i) \<noteq> ball_color (balls ! j) \<and>
     center_dist (balls ! i) (balls ! j) \<le> GROUP_RADIUS"
  by (simp add: clash_def positions_of_def center_dist_def)

lemma cross_clash_iff: "cross_clash (positions_of balls) \<longleftrightarrow> cross_adjacent balls"
proof
  assume "cross_clash (positions_of balls)"
  then obtain i j where "i < length balls" "j < length balls" "i < j"
    "clash (positions_of balls ! i) (positions_of balls ! j)"
    by (auto simp: cross_clash_def list_ex_iff length_positions_of Suc_le_eq)
  then show "cross_adjacent balls"
    unfolding cross_adjacent_def using clash_positions by blast
next
  assume "cross_adjacent balls"
  then obtain i j where ij: "i < length balls" "j < length balls"
    "ball_color (balls ! i) \<noteq> ball_color (balls ! j)"
    "center_dist (balls ! i) (balls ! j) \<le> GROUP_RADIUS"
    by (auto simp: cross_adjacent_def)
  then have "i \<noteq> j" by auto
  then consider "i < j" | "j < i" by linarith
  then obtain p q where "p < q" "q < length balls"
    "clash (positions_of balls ! p) (positions_of balls ! q)"
  proof cases
    case 1
    with ij clash_positions [of i balls j] that show ?thesis by blast
  next
    case 2
    with ij clash_positions [of j balls i] center_dist_sym [of "balls ! i" "balls ! j"] that
    show ?thesis by auto
  qed
  then have "p \<in> set [0..<length (positions_of balls)]"
    "q \<in> set [Suc p..<length (positions_of balls)]"
    by (simp_all add: length_positions_of)
  with \<open>clash (positions_of balls ! p) (positions_of balls ! q)\<close>
  show "cross_clash (positions_of balls)"
    unfolding cross_clash_def list_ex_iff by blast
qed

text \<open>
  Claim C9. On the empty batch \<^verbatim>\<open>checkWin\<close> returns false: the guard on
  \<^verbatim>\<open>balls.length\<close> answers before any group or pair is looked at.
\<close>

theorem checkWin_empty: "checkWin [] = False"
  by (simp add: checkWin_def)

text \<open>
  Claim C1, amended. For a non-empty batch with the colours \<^verbatim>\<open>generateBalls\<close> assigns,
  \<^verbatim>\<open>checkWin\<close> returns true exactly when, for every colour in the batch, everything of that
  colour is reachable from its first member along edges between same-coloured balls at
  centre distance at most \<open>GROUP_RADIUS\<close>, and no two balls of different colours lie within
  \<open>GROUP_RADIUS\<close> of each other.
\<close>

theorem checkWin_iff:
  assumes "balls \<noteq> []" and "palette_batch balls"
  shows "checkWin balls \<longleftrightarrow> spec_win balls"
proof -
  have "list_ex (\<lambda>(color, colorBalls). card (cluster balls colorBalls) \<noteq> length colorBalls)
          (group_balls balls)
        \<longleftrightarrow> (\<exists>c \<in> ball_color ` set balls. \<not> connected_color balls c)"
    unfolding list_ex_iff set_group_balls connected_color_def seed_cluster_def
    using cluster_full_iff [OF members_nonempty distinct_members] by auto
  then show ?thesis
    using assms(1) by (auto simp: checkWin_def spec_win_def cross_clash_iff)
qed

text \<open>
  Claim C5, amended. A ball of the batch is highlighted exactly when it lies in the cluster
  of the first ball of its colour (in batch order) and that cluster has at least two
  balls. The traversal is always seeded with that first ball.
\<close>

theorem getHighlight_iff:
  assumes "ball < length balls"
  shows "getHighlight balls ball \<longleftrightarrow>
           ball \<in> seed_cluster balls (ball_color (balls ! ball)) \<and>
           1 < card (seed_cluster balls (ball_color (balls ! ball)))"
proof -
  define c where "c = ball_color (balls ! ball)"
  define cb where "cb = members balls c"
  have ne: "balls \<noteq> []" using assms by auto
  have mem: "ball \<in> set cb" using assms by (simp add: cb_def members_def c_def)
  then have cbne: "cb \<noteq> []" by auto
  have same: "filter (\<lambda>b. ball_color (balls ! b) = ball_color (balls ! ball)) [0..<length balls] = cb"
    by (simp add: cb_def members_def c_def)
  have cl: "cluster balls cb = seed_cluster balls c"
    unfolding seed_cluster_def cb_def [symmetric] by (rule cluster_reachable [OF cbne])
  have sub: "seed_cluster balls c \<subseteq> set cb"
    unfolding seed_cluster_def cb_def [symmetric] using cbne by (intro reachable_in_group) simp
  have small: "\<not> 1 < card (seed_cluster balls c)" if "length cb < 2"
  proof -
    have "card (seed_cluster balls c) \<le> card (set cb)"
      using sub by (intro card_mono) simp_all
    also have "\<dots> \<le> length cb" by (rule card_length)
    finally show ?thesis using that by simp
  qed
  show ?thesis
    unfolding c_def [symmetric]
    using ne small by (auto simp: getHighlight_def same Let_def cl)
qed

lemma upt3: "[0..<3] = [0, 1, 2]"
  by (simp add: upt_rec)

text \<open>
  Claim C5 as stated promises the highlight to any two same-coloured balls within
  \<open>GROUP_RADIUS\<close>. With three reds, the first far away and the other two at distance 10,
  neither of the two is highlighted: the traversal starts at the first red and reaches
  nothing.
\<close>

theorem getHighlight_misses_subcluster:
  "ball_color (split_group ! 1) = ball_color (split_group ! 2) \<and>
   center_dist (split_group ! 1) (split_group ! 2) = 10 \<and>
   GROUP_RADIUS = 100 \<and>
   \<not> getHighlight split_group 1 \<and> \<not> getHighlight split_group 2"
proof -
  have n01: "\<not> near split_group 0 (Suc 0)" and n02: "\<not> near split_group 0 2"
    by (simp_all add: near_def center_dist_def split_group_def hypot_axis1 game_consts)
  have m: "filter (\<lambda>b. ball_color (split_group ! b) = Some ''red'') [0..<length split_group]
           = [0, 1, 2]"
    by (simp add: split_group_def upt3)
  have t: "traverse split_group [0, 1, 2] {} [0] = {0}"
    by (simp add: traverse.simps [of _ _ _ "[0]"] traverse.simps [of _ _ _ "[]"] Let_def n01 n02)
  have c: "cluster split_group [0, 1, 2] = {0}"
    using t by (simp add: cluster_def seed_queue_def)
  have col: "ball_color (split_group ! 1) = Some ''red''" "ball_color (split_group ! 2) = Some ''red''"
    by (simp_all add: split_group_def)
  have "\<not> getHighlight split_group 1" "\<not> getHighlight split_group 2"
    using m c col by (simp_all add: getHighlight_def Let_def)
  moreover have "center_dist (split_group ! 1) (split_group ! 2) = 10"
    by (simp add: center_dist_def split_group_def hypot_axis1)
  ultimately show ?thesis
    using col by (simp add: GROUP_RADIUS_def)
qed

text \<open>
  Claim C1 as stated fails on the empty batch: both conditions hold there (there is no
  colour and no pair), and \<^verbatim>\<open>checkWin\<close> returns false.
\<close>

theorem empty_batch_meets_conditions: "spec_win [] \<and> \<not> checkWin []"
  by (simp add: spec_win_def cross_adjacent_def checkWin_def)

lemma upt4: "[0..<4] = [0, 1, 2, 3]"
  by (simp add: upt_rec)

lemma two_clusters_wins: "checkWin two_clusters"
proof -
  have len: "length two_clusters = 4" by (simp add: two_clusters_def)
  have g: "group_balls two_clusters = [(Some ''red'', [0, 2]), (Some ''green'', [1, 3])]"
    by (simp add: group_balls_def len upt4) (simp add: two_clusters_def)
  have n: "near two_clusters 0 2" "near two_clusters 1 3"
    by (simp_all add: near_def center_dist_def two_clusters_def hypot_axis1 game_consts)
  have r: "cluster two_clusters [0, 2] = {0, 2}"
    using n by (simp add: cluster_def seed_queue_def traverse.simps [of _ _ _ "[0]"]
        traverse.simps [of _ _ _ "[2]"] traverse.simps [of _ _ _ "[]"] Let_def insert_commute)
  have gr: "cluster two_clusters [1, 3] = {1, 3}"
    using n by (simp add: cluster_def seed_queue_def traverse.simps [of _ _ _ "[Suc 0]"]
        traverse.simps [of _ _ _ "[3]"] traverse.simps [of _ _ _ "[]"] Let_def insert_commute)
  have x: "\<not> cross_clash (positions_of two_clusters)"
    by (simp add: cross_clash_def length_positions_of len upt_rec)
       (simp add: positions_of_def two_clusters_def clash_def hypot_axis1 game_consts)
  show ?thesis
    using r gr x by (simp add: checkWin_def g) (simp add: two_clusters_def)
qed

theorem checkWin_iff_witness:
  "two_clusters \<noteq> [] \<and> palette_batch two_clusters \<and> checkWin two_clusters \<and>
   spec_win two_clusters"
proof -
  have ne: "two_clusters \<noteq> []" by (simp add: two_clusters_def)
  have pb: "palette_batch two_clusters"
    by (simp add: palette_batch_def two_clusters_def palette_def)
  from checkWin_iff [OF ne pb] two_clusters_wins ne pb show ?thesis by blast
qed

theorem getHighlight_iff_witness:
  "(2::nat) < length two_clusters \<and> getHighlight two_clusters 2 \<and>
   2 \<in> seed_cluster two_clusters (Some ''red'') \<and>
   1 < card (seed_cluster two_clusters (Some ''red''))"
proof -
  have len: "length two_clusters = 4" by (simp add: two_clusters_def)
  have col: "ball_color (two_clusters ! 2) = Some ''red''" by (simp add: two_clusters_def)
  have m: "filter (\<lambda>b. ball_color (two_clusters ! b) = Some ''red'') [0..<4] = [0, 2]"
    by (simp add: upt4) (simp add: two_clusters_def)
  have n: "near two_clusters 0 2"
    by (simp add: near_def center_dist_def two_clusters_def hypot_axis1 game_consts)
  have r: "cluster two_clusters [0, 2] = {0, 2}"
    using n by (simp add: cluster_def seed_queue_def traverse.simps [of _ _ _ "[0]"]
        traverse.simps [of _ _ _ "[2]"] traverse.simps [of _ _ _ "[]"] Let_def insert_commute)
  have h: "getHighlight two_clusters 2"
    using r m by (simp add: getHighlight_def col len Let_def) (simp add: two_clusters_def)
  have l: "(2::nat) < length two_clusters" by (simp add: len)
  from getHighlight_iff [OF l] h l show ?thesis by (simp add: col)
qed

end
